theory Spec2Isabelle
  imports Complex_Main "HOL-Library.Word" "HOL-Library.FSet"
begin

section \<open>Bytes, length-prefixed framing and exact-length reads\<close>

type_synonym byte = "8 word"
type_synonym bytes = "byte list"

datatype error =
    ConnectionError
  | SocketTimeout
  | OverflowError
  | StructError
  | IndexError
  | ValueError
  | FileNotFoundError
  | ParseError
  | AttributeError

text \<open>
  \<open>n.to_bytes(2, "big")\<close>: two bytes, most significant first; Python raises
  \<open>OverflowError\<close> when the number does not fit.
\<close>

definition to_bytes2 :: "nat \<Rightarrow> error + bytes" where
  "to_bytes2 n =
     (if n < 65536 then Inr [of_nat (n div 256), of_nat (n mod 256)] else Inl OverflowError)"

text \<open>\<open>int.from_bytes(raw, "big")\<close>.\<close>

definition from_bytes_big :: "bytes \<Rightarrow> nat" where
  "from_bytes_big raw = foldl (\<lambda>acc b. acc * 256 + unat b) 0 raw"

text \<open>
  One \<open>sendall(len(field).to_bytes(2, "big") + field)\<close> of the senders: the bytes put on
  the wire for one field.
\<close>

definition sendall_field :: "bytes \<Rightarrow> error + bytes" where
  "sendall_field field =
     (case to_bytes2 (length field) of Inl e \<Rightarrow> Inl e | Inr prefix \<Rightarrow> Inr (prefix @ field))"

text \<open>
  The SECOC sender writes the message and the tag (secoc\_sender\_tcp.py, lines 55--56); the
  PQC sender writes message, signature and public key (sender\_pqc.py, lines 46--48).
  The result is the byte stream of the connection, or the error of the first failing write.
\<close>

definition secoc_sender_wire :: "bytes \<Rightarrow> bytes \<Rightarrow> error + bytes" where
  "secoc_sender_wire message tag =
     (case sendall_field message of
        Inl e \<Rightarrow> Inl e
      | Inr w1 \<Rightarrow> (case sendall_field tag of Inl e \<Rightarrow> Inl e | Inr w2 \<Rightarrow> Inr (w1 @ w2)))"

definition pqc_sender_wire :: "bytes \<Rightarrow> bytes \<Rightarrow> bytes \<Rightarrow> error + bytes" where
  "pqc_sender_wire message signature public_key =
     (case sendall_field message of
        Inl e \<Rightarrow> Inl e
      | Inr w1 \<Rightarrow>
          (case sendall_field signature of
             Inl e \<Rightarrow> Inl e
           | Inr w2 \<Rightarrow>
               (case sendall_field public_key of
                  Inl e \<Rightarrow> Inl e
                | Inr w3 \<Rightarrow> Inr (w1 @ w2 @ w3))))"

text \<open>
  The receiving side of a connection is the list of what the socket will deliver, in order:
  a segment of bytes, or a receive timeout. After the last event the peer has closed the
  connection, and \<open>recv\<close> returns the empty byte string. The segmentation is arbitrary,
  as on a TCP socket.
\<close>

datatype event = Data bytes | Timeout

type_synonym conn = "event list"

text \<open>
  \<open>conn.recv(n)\<close>: at most \<open>n\<close> bytes of the next segment; what is left of a longer
  segment stays in the connection. A segment without bytes is never delivered.
\<close>

fun recv :: "conn \<Rightarrow> nat \<Rightarrow> (error + bytes) \<times> conn" where
  "recv [] n = (Inr [], [])"
| "recv (Timeout # rest) n = (Inl SocketTimeout, rest)"
| "recv (Data s # rest) n =
     (if s = [] then recv rest n
      else if length s \<le> n then (Inr s, rest)
      else (Inr (take n s), Data (drop n s) # rest))"

text \<open>
  The loop of \<open>recv_exact\<close>, shared by both receivers:
  \<^verbatim>\<open>while len(data) < length: chunk = conn.recv(length - len(data)); ...; data += chunk\<close>.
  The two receivers differ in one line: secoc\_receiver\_tcp.py catches \<open>socket.timeout\<close>
  and raises \<open>ConnectionError\<close> instead (\<open>wrap_timeout\<close>), receiver\_pqc.py lets the
  timeout propagate. An empty chunk raises \<open>ConnectionError\<close> in both.
\<close>

function recv_exact_loop :: "bool \<Rightarrow> conn \<Rightarrow> nat \<Rightarrow> bytes \<Rightarrow> (error + bytes) \<times> conn" where
  "recv_exact_loop wrap_timeout c len data =
     (if length data < len then
        (case recv c (len - length data) of
           (Inl e, c') \<Rightarrow> (Inl (if wrap_timeout then ConnectionError else e), c')
         | (Inr chunk, c') \<Rightarrow>
             if chunk = [] then (Inl ConnectionError, c')
             else recv_exact_loop wrap_timeout c' len (data @ chunk))
      else (Inr data, c))"
  by pat_completeness auto
termination
  by (relation "measure (\<lambda>(w, c, len, data). len - length data)") (auto simp: neq_Nil_conv)

definition secoc_recv_exact :: "conn \<Rightarrow> nat \<Rightarrow> (error + bytes) \<times> conn" where
  "secoc_recv_exact c len = recv_exact_loop True c len []"

definition pqc_recv_exact :: "conn \<Rightarrow> nat \<Rightarrow> (error + bytes) \<times> conn" where
  "pqc_recv_exact c len = recv_exact_loop False c len []"

text \<open>
  Both receivers read every field with the same two calls:
  \<^verbatim>\<open>raw = recv_exact(conn, 2); n = int.from_bytes(raw, "big"); field = recv_exact(conn, n)\<close>.
  \<open>read_field\<close> is that pair of calls; it also returns the length read from the prefix.
\<close>

definition read_field ::
  "(conn \<Rightarrow> nat \<Rightarrow> (error + bytes) \<times> conn) \<Rightarrow> conn \<Rightarrow> (error + nat \<times> bytes) \<times> conn" where
  "read_field recv_exact c =
     (case recv_exact c 2 of
        (Inl e, c1) \<Rightarrow> (Inl e, c1)
      | (Inr raw, c1) \<Rightarrow>
          (let n = from_bytes_big raw in
           case recv_exact c1 n of
             (Inl e, c2) \<Rightarrow> (Inl e, c2)
           | (Inr field, c2) \<Rightarrow> (Inr (n, field), c2)))"

text \<open>
  The reads of the SECOC \<open>handle_connection\<close> (lines 85--91): message, then tag. The
  tag length is kept, the HMAC is truncated to it later.
\<close>

definition secoc_read_envelope :: "conn \<Rightarrow> error + (bytes \<times> nat \<times> bytes)" where
  "secoc_read_envelope c0 =
     (case read_field secoc_recv_exact c0 of
        (Inl e, c1) \<Rightarrow> Inl e
      | (Inr (msg_len, message), c1) \<Rightarrow>
          (case read_field secoc_recv_exact c1 of
             (Inl e, c2) \<Rightarrow> Inl e
           | (Inr (tag_len, tag), c2) \<Rightarrow> Inr (message, tag_len, tag)))"

text \<open>
  The reads of the PQC \<open>handle_connection\<close> (lines 105--115): message, signature,
  public key.
\<close>

definition pqc_read_envelope :: "conn \<Rightarrow> error + (bytes \<times> bytes \<times> bytes)" where
  "pqc_read_envelope c0 =
     (case read_field pqc_recv_exact c0 of
        (Inl e, c1) \<Rightarrow> Inl e
      | (Inr (msg_len, message), c1) \<Rightarrow>
          (case read_field pqc_recv_exact c1 of
             (Inl e, c2) \<Rightarrow> Inl e
           | (Inr (sig_len, signature), c2) \<Rightarrow>
               (case read_field pqc_recv_exact c2 of
                  (Inl e, c3) \<Rightarrow> Inl e
                | (Inr (pk_len, public_key), c3) \<Rightarrow> Inr (message, signature, public_key))))"

text \<open>The bytes a connection delivers when no timeout occurs, and that property.\<close>

fun payload :: "conn \<Rightarrow> bytes" where
  "payload [] = []"
| "payload (Data s # rest) = s @ payload rest"
| "payload (Timeout # rest) = payload rest"

fun no_timeout :: "conn \<Rightarrow> bool" where
  "no_timeout [] = True"
| "no_timeout (Data s # rest) = no_timeout rest"
| "no_timeout (Timeout # rest) = False"

section \<open>SECOC receiver (secoc\_receiver\_tcp.py)\<close>

subsection \<open>Overload admission\<close>

text \<open>
  Python floats are modelled as reals: the only operations the receivers apply to them are
  one division by a constant, \<open>min\<close> and comparisons.
\<close>

definition CPU_SCALE :: real where
  "CPU_SCALE = 120.0"

definition MAX_DROP_PROB :: real where
  "MAX_DROP_PROB = 0.85"

text \<open>
  \<open>compute_drop_prob\<close> reads the host CPU percentage through \<open>psutil\<close>; the reading is
  the argument, \<open>None\<close> when \<open>psutil.cpu_percent\<close> raises (the source then takes 0.0).
  The result is the pair \<open>(prob, cpu)\<close> of the source.
\<close>

definition compute_drop_prob :: "real option \<Rightarrow> real \<times> real" where
  "compute_drop_prob reading =
     (let cpu = (case reading of Some c \<Rightarrow> c | None \<Rightarrow> 0.0);
          prob = min MAX_DROP_PROB (cpu / CPU_SCALE)
      in (prob, cpu))"

subsection \<open>Freshness, payload layout and the replay cache\<close>

definition REPLAY_CACHE_SIZE :: nat where
  "REPLAY_CACHE_SIZE = 1024"

definition FRESHNESS_MAX_AGE :: int where
  "FRESHNESS_MAX_AGE = 5"

definition FRESHNESS_FUTURE_TOL :: int where
  "FRESHNESS_FUTURE_TOL = 5"

text \<open>\<open>struct.unpack(">Q", freshness)[0]\<close>: exactly eight bytes, else \<open>struct.error\<close>.\<close>

definition unpack_Q :: "bytes \<Rightarrow> error + nat" where
  "unpack_Q freshness =
     (if length freshness = 8 then Inr (from_bytes_big freshness) else Inl StructError)"

text \<open>
  \<open>struct.unpack(">H I h h B H ff 27x", structured_payload)\<close>: exactly 48 bytes, else
  \<open>struct.error\<close>. The two floats are kept as their four bytes.
\<close>

record telemetry =
  speed :: int
  rpm :: int
  temp :: int
  steer :: int
  fuel :: int
  brake :: int
  lat_bits :: bytes
  lon_bits :: bytes

definition unsigned_be :: "bytes \<Rightarrow> int" where
  "unsigned_be bs = int (from_bytes_big bs)"

definition signed_be16 :: "bytes \<Rightarrow> int" where
  "signed_be16 bs = (let n = unsigned_be bs in if n < 32768 then n else n - 65536)"

definition slice :: "nat \<Rightarrow> nat \<Rightarrow> 'a list \<Rightarrow> 'a list" where
  "slice i j xs = take (j - i) (drop i xs)"

definition unpack_payload :: "bytes \<Rightarrow> error + telemetry" where
  "unpack_payload p =
     (if length p = 48 then
        Inr \<lparr>speed = unsigned_be (slice 0 2 p), rpm = unsigned_be (slice 2 6 p),
             temp = signed_be16 (slice 6 8 p), steer = signed_be16 (slice 8 10 p),
             fuel = unsigned_be (slice 10 11 p), brake = unsigned_be (slice 11 13 p),
             lat_bits = slice 13 17 p, lon_bits = slice 17 21 p\<rparr>
      else Inl StructError)"

text \<open>
  The module state of the SECOC receiver: \<open>REPLAY_CACHE\<close> is a
  \<open>collections.deque(maxlen=1024)\<close>, oldest fingerprint first; \<open>REPLAY_SET\<close> is a set.
\<close>

record secoc_state =
  REPLAY_CACHE :: "string list"
  REPLAY_SET :: "string fset"

definition secoc_initial :: secoc_state where
  "secoc_initial = \<lparr>REPLAY_CACHE = [], REPLAY_SET = {||}\<rparr>"

text \<open>\<open>deque.popleft()\<close> raises \<open>IndexError\<close> on an empty deque.\<close>

fun popleft :: "'a list \<Rightarrow> error + ('a \<times> 'a list)" where
  "popleft [] = Inl IndexError"
| "popleft (x # q) = Inr (x, q)"

text \<open>
  \<open>deque.append(x)\<close> on a deque with \<open>maxlen\<close>: a full deque discards its leftmost item.
\<close>

definition deque_append :: "nat \<Rightarrow> 'a list \<Rightarrow> 'a \<Rightarrow> 'a list" where
  "deque_append maxlen q x = (if length q < maxlen then q @ [x] else tl (q @ [x]))"

definition record_replay :: "secoc_state \<Rightarrow> string \<Rightarrow> error + (bool \<times> secoc_state)" where
  "record_replay st msg_hash =
     (if msg_hash |\<in>| REPLAY_SET st then Inr (False, st)
      else if fcard (REPLAY_SET st) \<ge> REPLAY_CACHE_SIZE then
        (case popleft (REPLAY_CACHE st) of
           Inl e \<Rightarrow> Inl e
         | Inr (old, q) \<Rightarrow>
             Inr (True, \<lparr>REPLAY_CACHE = deque_append REPLAY_CACHE_SIZE q msg_hash,
                         REPLAY_SET = finsert msg_hash (REPLAY_SET st |-| {|old|})\<rparr>))
      else
        Inr (True, \<lparr>REPLAY_CACHE = deque_append REPLAY_CACHE_SIZE (REPLAY_CACHE st) msg_hash,
                    REPLAY_SET = finsert msg_hash (REPLAY_SET st)\<rparr>))"

subsection \<open>The connection handler\<close>

datatype secoc_outcome =
    Connection_aborted error
  | Message_too_short
  | Freshness_unpack_failed
  | Stale_msg
  | Future_msg
  | HMAC_mismatch
  | Replay_detected
  | Fatal_error error
  | Overload_drop
  | Unpack_error
  | Valid_msg telemetry

text \<open>
  What \<open>handle_connection\<close> does once the envelope is read (lines 100--157). What the call
  obtains from outside the program is an argument:
  \<^item> \<open>now\<close>: \<open>int(time.time())\<close>;
  \<^item> \<open>calc_full\<close>: the digest \<open>hmac.new(SECRET_KEY, structured_payload + freshness,
    hashlib.sha256).digest()\<close>;
  \<^item> \<open>hexdigest\<close>: \<open>hashlib.sha256(structured_payload + freshness + tag).hexdigest()\<close>;
  \<^item> \<open>reading\<close>: the CPU percentage of \<open>psutil\<close>, \<open>None\<close> when it raises;
  \<^item> \<open>draw\<close>: \<open>random.random()\<close>.
  An \<open>IndexError\<close> of \<open>record_replay\<close> is not caught in the handler and ends in the
  \<open>except Exception\<close> of \<open>main\<close> (\<open>Fatal_error\<close>). Computing and slicing the HMAC
  of a byte string does not raise, so the \<open>except\<close> branch around it has no counterpart.
\<close>

definition secoc_verify ::
  "secoc_state \<Rightarrow> bytes \<Rightarrow> nat \<Rightarrow> bytes \<Rightarrow> int \<Rightarrow> bytes \<Rightarrow> string \<Rightarrow> real option \<Rightarrow> real
     \<Rightarrow> secoc_outcome \<times> secoc_state" where
  "secoc_verify st message tag_len tag now calc_full hexdigest reading draw =
     (if length message < 56 then (Message_too_short, st)
      else
        let structured_payload = take (length message - 8) message;
            freshness = drop (length message - 8) message
        in case unpack_Q freshness of
             Inl e \<Rightarrow> (Freshness_unpack_failed, st)
           | Inr ts \<Rightarrow>
               (let age = now - int ts in
                if age > FRESHNESS_MAX_AGE then (Stale_msg, st)
                else if int ts - now > FRESHNESS_FUTURE_TOL then (Future_msg, st)
                else
                  let calc_tag = take tag_len calc_full in
                  if calc_tag \<noteq> tag then (HMAC_mismatch, st)
                  else
                    let msg_hash = take 32 hexdigest in
                    if msg_hash |\<in>| REPLAY_SET st then (Replay_detected, st)
                    else
                      (case record_replay st msg_hash of
                         Inl e \<Rightarrow> (Fatal_error e, st)
                       | Inr (is_new, st') \<Rightarrow>
                           (let (drop_prob, cpu) = compute_drop_prob reading in
                            if draw < drop_prob then (Overload_drop, st')
                            else
                              (case unpack_payload structured_payload of
                                 Inl e \<Rightarrow> (Unpack_error, st')
                               | Inr decoded \<Rightarrow> (Valid_msg decoded, st'))))))"

definition secoc_handle_connection ::
  "secoc_state \<Rightarrow> conn \<Rightarrow> int \<Rightarrow> bytes \<Rightarrow> string \<Rightarrow> real option \<Rightarrow> real
     \<Rightarrow> secoc_outcome \<times> secoc_state" where
  "secoc_handle_connection st c now calc_full hexdigest reading draw =
     (case secoc_read_envelope c of
        Inl e \<Rightarrow> (Connection_aborted e, st)
      | Inr (message, tag_len, tag) \<Rightarrow>
          secoc_verify st message tag_len tag now calc_full hexdigest reading draw)"

section \<open>PQC receiver (receiver\_pqc.py)\<close>

definition CPU_LIMIT :: real where
  "CPU_LIMIT = 85.0"

definition DROP_PROB_BASE :: real where
  "DROP_PROB_BASE = 0.1"

definition MSG_QUEUE_maxsize :: nat where
  "MSG_QUEUE_maxsize = 500"

definition MAX_HASHES :: nat where
  "MAX_HASHES = 2048"

text \<open>
  The module state: the replay set \<open>SEEN_HASHES\<close> and the bounded queue \<open>MSG_QUEUE\<close>
  between the connection handlers and the workers (first in, first out). The receiver is
  modelled one call at a time; the interleaving of its threads is not.
\<close>

record pqc_state =
  SEEN_HASHES :: "string fset"
  MSG_QUEUE :: "(bytes \<times> bytes \<times> bytes) list"

definition pqc_initial :: pqc_state where
  "pqc_initial = \<lparr>SEEN_HASHES = {||}, MSG_QUEUE = []\<rparr>"

datatype pqc_conn_outcome =
    Incomplete_recv error
  | Admission_drop
  | Queue_full_drop
  | Enqueued

text \<open>
  \<open>handle_connection\<close>: \<open>cpu\<close> is \<open>psutil.cpu_percent(interval=0.0)\<close>, \<open>draw\<close> is
  \<open>random.random()\<close>; \<open>put_nowait\<close> raises \<open>queue.Full\<close> when the queue holds
  \<open>maxsize\<close> items.
\<close>

definition pqc_handle_connection ::
  "pqc_state \<Rightarrow> conn \<Rightarrow> real \<Rightarrow> real \<Rightarrow> pqc_conn_outcome \<times> pqc_state" where
  "pqc_handle_connection st c cpu draw =
     (case pqc_read_envelope c of
        Inl e \<Rightarrow> (Incomplete_recv e, st)
      | Inr (message, signature, public_key) \<Rightarrow>
          if cpu > CPU_LIMIT \<or> draw < DROP_PROB_BASE then (Admission_drop, st)
          else if length (MSG_QUEUE st) \<ge> MSG_QUEUE_maxsize then (Queue_full_drop, st)
          else (Enqueued, st\<lparr>MSG_QUEUE := MSG_QUEUE st @ [(message, signature, public_key)]\<rparr>))"

datatype pqc_msg_outcome =
    Bad_freshness
  | Not_fresh
  | Replayed
  | Signature_failed
  | Verify_error
  | PQC_verified

text \<open>
  \<open>handle_message\<close>. From outside the program:
  \<^item> \<open>now\<close>: \<open>int(time.time())\<close>;
  \<^item> \<open>msg_hash\<close>: \<open>hashlib.sha256(message + signature).hexdigest()\<close>;
  \<^item> \<open>victim\<close>: the element \<open>SEEN_HASHES.pop()\<close> removes, which Python leaves
    unspecified (some element of the set);
  \<^item> \<open>verdict\<close>: the result of \<open>verifier.verify(message, signature, public_key)\<close>,
    \<open>None\<close> when the library raises.
  The hashing loop after a successful verification changes no state and is left out.
\<close>

definition handle_message ::
  "pqc_state \<Rightarrow> bytes \<Rightarrow> bytes \<Rightarrow> bytes \<Rightarrow> int \<Rightarrow> string \<Rightarrow> string \<Rightarrow> bool option
     \<Rightarrow> pqc_msg_outcome \<times> pqc_state" where
  "handle_message st message signature public_key now msg_hash victim verdict =
     (let structured_payload = take (length message - 8) message;
          freshness = drop (length message - 8) message
      in case unpack_Q freshness of
           Inl e \<Rightarrow> (Bad_freshness, st)
         | Inr ts \<Rightarrow>
             if \<bar>now - int ts\<bar> > 30 then (Not_fresh, st)
             else if msg_hash |\<in>| SEEN_HASHES st then (Replayed, st)
             else
               (let seen = finsert msg_hash (SEEN_HASHES st);
                    seen' = (if fcard seen > MAX_HASHES then seen |-| {|victim|} else seen);
                    st' = st\<lparr>SEEN_HASHES := seen'\<rparr>
                in case verdict of
                     None \<Rightarrow> (Verify_error, st')
                   | Some ok \<Rightarrow> if \<not> ok then (Signature_failed, st') else (PQC_verified, st')))"

text \<open>
  One round of \<open>worker\<close>: take the oldest queued envelope and run \<open>handle_message\<close> on
  it; \<open>None\<close> when the queue is empty (the worker blocks in \<open>MSG_QUEUE.get()\<close>).
\<close>

definition worker_step ::
  "pqc_state \<Rightarrow> int \<Rightarrow> string \<Rightarrow> string \<Rightarrow> bool option \<Rightarrow> (pqc_msg_outcome \<times> pqc_state) option" where
  "worker_step st now msg_hash victim verdict =
     (case MSG_QUEUE st of
        [] \<Rightarrow> None
      | (message, signature, public_key) # rest \<Rightarrow>
          Some (handle_message (st\<lparr>MSG_QUEUE := rest\<rparr>) message signature public_key
                  now msg_hash victim verdict))"


subsection \<open>Workers running side by side\<close>

text \<open>
  \<open>main\<close> starts four \<open>worker\<close> threads that share \<open>SEEN_HASHES\<close> without a lock. A
  thread can be suspended between any two statements of \<open>handle_message\<close>; one operation
  on the set (\<open>in\<close>, \<open>add\<close>, \<open>len\<close>, \<open>pop\<close>) is not interrupted. A call of
  \<open>handle_message\<close> is the message, the time and the values the libraries return for it
  (fingerprint, verdict of the verifier).
\<close>

datatype call = Call bytes int string "bool option"

text \<open>
  Where a worker stands: blocked in \<open>MSG_QUEUE.get()\<close> before its first call, inside
  \<open>handle_message\<close> before the freshness check (lines 44--56), before the membership test
  (line 60), before \<open>add\<close> (line 62), before the test of \<open>len\<close> (line 63), before
  \<open>pop\<close> (line 64), before the verification (lines 69--76), or back from the call with
  its outcome. \<open>pop\<close> on an empty set raises \<open>KeyError\<close>, which \<open>worker\<close> catches and
  prints. A worker carries the calls it will still make, in order.
\<close>

datatype worker_pc =
    Waiting
  | At_freshness call
  | At_membership call
  | At_add call
  | At_len call
  | At_pop call
  | At_verify call
  | Returned pqc_msg_outcome
  | Raised_KeyError

type_synonym worker = "worker_pc \<times> call list"

definition take_call :: "worker_pc \<Rightarrow> call list \<Rightarrow> worker" where
  "take_call pc todo = (case todo of [] \<Rightarrow> (pc, []) | c # rest \<Rightarrow> (At_freshness c, rest))"

text \<open>
  One statement of one worker on the shared set. \<open>victim\<close> is the element \<open>pop\<close> picks;
  when it names no element of a non-empty set the step does nothing.
\<close>

fun thread_step :: "string \<Rightarrow> string fset \<Rightarrow> worker \<Rightarrow> string fset \<times> worker" where
  "thread_step victim seen (Waiting, todo) = (seen, take_call Waiting todo)"
| "thread_step victim seen (Returned out, todo) = (seen, take_call (Returned out) todo)"
| "thread_step victim seen (Raised_KeyError, todo) = (seen, take_call Raised_KeyError todo)"
| "thread_step victim seen (At_freshness (Call message now msg_hash verdict), todo) =
     (seen,
      (case unpack_Q (drop (length message - 8) message) of
         Inl e \<Rightarrow> Returned Bad_freshness
       | Inr stamp \<Rightarrow>
           if \<bar>now - int stamp\<bar> > 30 then Returned Not_fresh
           else At_membership (Call message now msg_hash verdict)),
      todo)"
| "thread_step victim seen (At_membership (Call message now msg_hash verdict), todo) =
     (seen,
      if msg_hash |\<in>| seen then Returned Replayed
      else At_add (Call message now msg_hash verdict),
      todo)"
| "thread_step victim seen (At_add (Call message now msg_hash verdict), todo) =
     (finsert msg_hash seen, At_len (Call message now msg_hash verdict), todo)"
| "thread_step victim seen (At_len c, todo) =
     (seen, if fcard seen > MAX_HASHES then At_pop c else At_verify c, todo)"
| "thread_step victim seen (At_pop c, todo) =
     (if victim |\<in>| seen then (seen |-| {|victim|}, At_verify c, todo)
      else if seen = {||} then (seen, Raised_KeyError, todo)
      else (seen, At_pop c, todo))"
| "thread_step victim seen (At_verify (Call message now msg_hash verdict), todo) =
     (seen,
      (case verdict of
         None \<Rightarrow> Returned Verify_error
       | Some ok \<Rightarrow> if \<not> ok then Returned Signature_failed else Returned PQC_verified),
      todo)"

text \<open>
  A schedule is the order in which the workers take their steps, each entry naming the worker
  and the element a \<open>pop\<close> would pick.
\<close>

fun sched_step :: "string fset \<times> worker list \<Rightarrow> nat \<times> string \<Rightarrow> string fset \<times> worker list" where
  "sched_step (seen, ws) (i, victim) =
     (if i < length ws then
        (case thread_step victim seen (ws ! i) of (seen', w') \<Rightarrow> (seen', ws[i := w']))
      else (seen, ws))"

definition run_threads ::
  "string fset \<times> worker list \<Rightarrow> (nat \<times> string) list \<Rightarrow> string fset \<times> worker list" where
  "run_threads cfg schedule = foldl sched_step cfg schedule"

text \<open>
  A worker is between its \<open>add\<close> and its eviction when it stands before line 63 or
  line 64; \<open>pending\<close> counts these workers.
\<close>

fun in_flight :: "worker_pc \<Rightarrow> bool" where
  "in_flight (At_len c) = True"
| "in_flight (At_pop c) = True"
| "in_flight other = False"

definition pending :: "worker list \<Rightarrow> nat" where
  "pending ws = length (filter (\<lambda>w. in_flight (fst w)) ws)"

section \<open>Sequences of calls\<close>

text \<open>
  \<open>record_replay\<close> called for a list of fingerprints in turn, as successive connections
  do; an uncaught \<open>IndexError\<close> ends the run.
\<close>

fun record_all :: "secoc_state \<Rightarrow> string list \<Rightarrow> error + secoc_state" where
  "record_all st [] = Inr st"
| "record_all st (h # hs) =
     (case record_replay st h of Inl e \<Rightarrow> Inl e | Inr (is_new, st') \<Rightarrow> record_all st' hs)"

text \<open>
  The relation between the deque and the set that \<open>record_replay\<close> maintains: the same
  fingerprints, each once, at most \<open>REPLAY_CACHE_SIZE\<close> of them.
\<close>

definition secoc_inv :: "secoc_state \<Rightarrow> bool" where
  "secoc_inv st \<longleftrightarrow>
     REPLAY_SET st = fset_of_list (REPLAY_CACHE st) \<and> distinct (REPLAY_CACHE st)
     \<and> length (REPLAY_CACHE st) \<le> REPLAY_CACHE_SIZE"

text \<open>The SECOC receiver accepts a message when it reaches the final log line.\<close>

fun secoc_accepted :: "secoc_outcome \<Rightarrow> bool" where
  "secoc_accepted (Valid_msg decoded) = True"
| "secoc_accepted other = False"

text \<open>
  One envelope through the PQC receiver when connection handler and worker run one after
  the other: \<open>handle_connection\<close>, then, if the envelope was enqueued, one round of the
  worker. The envelope is accepted when \<open>handle_message\<close> reaches its final log line.
\<close>

datatype pqc_outcome = At_connection pqc_conn_outcome | At_worker pqc_msg_outcome | Worker_idle

definition pqc_receive ::
  "pqc_state \<Rightarrow> conn \<Rightarrow> real \<Rightarrow> real \<Rightarrow> int \<Rightarrow> string \<Rightarrow> string \<Rightarrow> bool option
     \<Rightarrow> pqc_outcome \<times> pqc_state" where
  "pqc_receive st c cpu draw now msg_hash victim verdict =
     (let (oc, st1) = pqc_handle_connection st c cpu draw in
      if oc = Enqueued then
        (case worker_step st1 now msg_hash victim verdict of
           None \<Rightarrow> (Worker_idle, st1)
         | Some (om, st2) \<Rightarrow> (At_worker om, st2))
      else (At_connection oc, st1))"

definition pqc_accepted :: "pqc_outcome \<Rightarrow> bool" where
  "pqc_accepted out \<longleftrightarrow> out = At_worker PQC_verified"

section \<open>Example inputs\<close>

text \<open>
  A 56-byte message (an all-zero telemetry record, freshness timestamp 100), a tag and the
  digests the libraries return for it, the connections that deliver it, and \<open>n\<close> distinct
  fingerprints.
\<close>

definition example_message :: bytes where
  "example_message = replicate 48 0 @ [0, 0, 0, 0, 0, 0, 0, 100]"

definition example_tag :: bytes where
  "example_tag = replicate 8 1"

definition example_hmac :: bytes where
  "example_hmac = replicate 32 1"

definition example_hexdigest :: string where
  "example_hexdigest = replicate 64 (CHR ''a'')"

definition example_secoc_conn :: conn where
  "example_secoc_conn = [Data [0, 56], Data example_message, Data [0, 8], Data example_tag]"

definition example_pqc_conn :: conn where
  "example_pqc_conn = [Data [0, 56], Data example_message, Data [0, 1, 8, 0], Data [1, 9]]"

definition example_fingerprints :: "nat \<Rightarrow> string list" where
  "example_fingerprints n = map (\<lambda>k. replicate k (CHR ''a'')) [0..<n]"

text \<open>
  A full PQC replay set (the 2048 fingerprints above), two fingerprints it does not hold, two
  workers with one call each, and a schedule: both workers add their fingerprint, then the
  first evicts the empty fingerprint and returns. The longer schedule lets the second worker
  finish as well.
\<close>

definition example_full_set :: "string fset" where
  "example_full_set = fset_of_list (example_fingerprints 2048)"

definition example_hash_a :: string where
  "example_hash_a = replicate 2048 (CHR ''a'')"

definition example_hash_b :: string where
  "example_hash_b = replicate 2049 (CHR ''a'')"

definition example_workers :: "worker list" where
  "example_workers =
     [(Waiting, [Call example_message 100 example_hash_a (Some True)]),
      (Waiting, [Call example_message 100 example_hash_b (Some True)])]"

definition example_schedule :: "(nat \<times> string) list" where
  "example_schedule =
     [(0, ''''), (0, ''''), (0, ''''), (0, ''''),
      (1, ''''), (1, ''''), (1, ''''), (1, ''''),
      (0, ''''), (0, ''''), (0, '''')]"

definition example_schedule_complete :: "(nat \<times> string) list" where
  "example_schedule_complete = example_schedule @ [(1, ''a''), (1, ''a''), (1, ''a'')]"

section \<open>Load simulator (dos\_simulator.py): the run summary\<close>

text \<open>
  A Request Result, as \<open>LoadGen\<close> appends it to \<open>results\<close>. \<open>latency_ms\<close> is optional
  because \<open>summarize\<close> tests \<open>r.get("latency_ms") is not None\<close>. Latencies are floats,
  modelled as reals.
\<close>

record request_result =
  idx :: int
  ts :: string
  success :: bool
  latency_ms :: "real option"
  resp_len :: nat
  err :: "string option"
  iteration :: "nat option"

record run_summary =
  total :: int
  successes :: int
  failures :: int
  success_rate_pct :: "real option"
  lat_p50_ms :: "real option"
  lat_p90_ms :: "real option"
  lat_p99_ms :: "real option"
  lat_mean_ms :: "real option"

text \<open>
  \<open>numpy.percentile(a, q)\<close> with its default method (\<open>linear\<close>), as numpy computes it:
  sort, take the virtual index \<open>(n - 1) * q / 100\<close>, its integer part and the next index
  (clipped to the last), and interpolate with the fractional part. \<open>q\<close> is a whole
  percentage, as in the three calls of \<open>summarize\<close>, which only calls it on a non-empty list.
\<close>

definition np_percentile :: "real list \<Rightarrow> nat \<Rightarrow> real" where
  "np_percentile xs q =
     (let a = sort xs;
          n = length a;
          virtual_index = (n - 1) * q;
          previous_index = virtual_index div 100;
          next_index = min (previous_index + 1) (n - 1);
          gamma = real (virtual_index mod 100) / 100
      in a ! previous_index + gamma * (a ! next_index - a ! previous_index))"

text \<open>\<open>statistics.mean\<close>, likewise only called on a non-empty list.\<close>

definition statistics_mean :: "real list \<Rightarrow> real" where
  "statistics_mean xs = sum_list xs / real (length xs)"

definition summarize :: "request_result list \<Rightarrow> run_summary" where
  "summarize results =
     (let lat = map (\<lambda>r. the (latency_ms r))
                  (filter (\<lambda>r. success r \<and> latency_ms r \<noteq> None) results);
          total = int (length results);
          succ = int (length (filter success results));
          fail = total - succ
      in \<lparr>total = total,
          successes = succ,
          failures = fail,
          success_rate_pct =
            (if total > 0 then Some (real_of_int succ / real_of_int total * 100.0) else None),
          lat_p50_ms = (if lat \<noteq> [] then Some (np_percentile lat 50) else None),
          lat_p90_ms = (if lat \<noteq> [] then Some (np_percentile lat 90) else None),
          lat_p99_ms = (if lat \<noteq> [] then Some (np_percentile lat 99) else None),
          lat_mean_ms = (if lat \<noteq> [] then Some (statistics_mean lat) else None)\<rparr>)"

text \<open>
  For the statement of the summary's properties: the latencies of the successful attempts, in
  order, and the percentile by linear interpolation between the two order statistics around
  the rank \<open>(n - 1) * q / 100\<close>, written with floor and ceiling of that rank.
\<close>

definition successful_latencies :: "request_result list \<Rightarrow> real list" where
  "successful_latencies results =
     [l. r \<leftarrow> results, success r, l \<leftarrow> (case latency_ms r of None \<Rightarrow> [] | Some l \<Rightarrow> [l])]"

definition linear_interpolation_percentile :: "real list \<Rightarrow> real \<Rightarrow> real" where
  "linear_interpolation_percentile xs q =
     (let a = sort xs;
          h = real (length a - 1) * q / 100;
          lo = nat \<lfloor>h\<rfloor>;
          hi = nat \<lceil>h\<rceil>
      in (1 - (h - real lo)) * a ! lo + (h - real lo) * a ! hi)"

definition example_results :: "request_result list" where
  "example_results =
     [\<lparr>idx = 0, ts = ''t0'', success = True, latency_ms = Some 40, resp_len = 5, err = None, iteration = None\<rparr>,
      \<lparr>idx = 1, ts = ''t1'', success = False, latency_ms = Some 999, resp_len = 0, err = Some ''refused'', iteration = None\<rparr>,
      \<lparr>idx = 2, ts = ''t2'', success = True, latency_ms = Some 10, resp_len = 5, err = None, iteration = None\<rparr>,
      \<lparr>idx = 3, ts = ''t3'', success = True, latency_ms = Some 30, resp_len = 5, err = None, iteration = None\<rparr>,
      \<lparr>idx = 4, ts = ''t4'', success = True, latency_ms = Some 20, resp_len = 5, err = None, iteration = None\<rparr>]"

definition example_failures :: "request_result list" where
  "example_failures =
     [\<lparr>idx = 0, ts = ''t0'', success = False, latency_ms = Some 3, resp_len = 0, err = Some ''refused'', iteration = None\<rparr>,
      \<lparr>idx = 1, ts = ''t1'', success = False, latency_ms = Some 4, resp_len = 0, err = Some ''refused'', iteration = None\<rparr>]"

section \<open>Result normalizer (normalize\_results.py): bus-metrics CSV mode\<close>

text \<open>
  The data frame \<open>pd.read_csv\<close> returns is the list of its rows. A cell of a float column
  is a number or NaN (an empty cell); a column that holds anything else is read as text, and
  \<open>Text\<close> is a cell that \<open>float()\<close> rejects with \<open>ValueError\<close>. \<open>frame_id\<close> is an
  integer column.
\<close>

datatype csv_value = Num real | NaN | Text string

text \<open>
  \<open>datetime.utcfromtimestamp(t).isoformat() + "Z"\<close> is kept symbolic as \<open>Iso t\<close>;
  \<open>Blank\<close> is the empty string the request log gets for a NaN timestamp.
\<close>

datatype iso_time = Iso real | Blank

record can_row =
  timestamp :: csv_value
  frame_id :: int
  cpu_percent :: csv_value
  mem_mb :: csv_value
  fps :: csv_value

record can_summary = run_summary +
  start_time :: "iso_time option"
  end_time :: "iso_time option"
  duration_s :: "real option"
  sample_count :: nat
  source_csv :: string
  assumed_all_success :: bool

record request_row =
  row_idx :: int
  row_ts :: iso_time
  row_success :: bool
  row_latency_ms :: string
  row_resp_len :: string
  row_err :: string

text \<open>
  What a call of \<open>normalize_can\<close> leaves behind: the three files of the output directory
  (\<open>None\<close>: not written) and the exception that ended the call, if any. An exception in
  the loop over the rows leaves the request log with the rows written so far.
\<close>

record can_output =
  system_csv :: "can_row list option"
  summary_json :: "can_summary option"
  requests_csv :: "request_row list option"
  raised :: "error option"

text \<open>\<open>float(v)\<close> on a cell.\<close>

definition py_float :: "csv_value \<Rightarrow> error + csv_value" where
  "py_float v = (case v of Text s \<Rightarrow> Inl ValueError | _ \<Rightarrow> Inr v)"

text \<open>
  \<open>datetime.utcfromtimestamp\<close> raises \<open>ValueError\<close> for NaN and for a time outside
  the years 1 to 9999. The bounds are taken to the whole second, and the other exception
  classes Python uses far outside that range (\<open>OverflowError\<close>, \<open>OSError\<close>) are not
  told apart from \<open>ValueError\<close>.
\<close>

definition utc_iso :: "csv_value \<Rightarrow> error + iso_time" where
  "utc_iso v =
     (case v of
        Num t \<Rightarrow> if - 62135596800 \<le> t \<and> t < 253402300800 then Inr (Iso t) else Inl ValueError
      | _ \<Rightarrow> Inl ValueError)"

definition basename :: "string \<Rightarrow> string" where
  "basename path = rev (takeWhile (\<lambda>ch. ch \<noteq> CHR ''/'') (rev path))"

text \<open>
  The \<open>try\<close> block that fills \<open>start_time\<close>, \<open>end_time\<close> and \<open>duration_s\<close>
  (lines 78--85): any exception ends the block and keeps what was assigned before it.
  Only called on a non-empty frame.
\<close>

definition summary_times :: "can_row list \<Rightarrow> iso_time option \<times> iso_time option \<times> real option" where
  "summary_times df =
     (case py_float (timestamp (hd df)) of
        Inl e \<Rightarrow> (None, None, None)
      | Inr ts0 \<Rightarrow>
          (case py_float (timestamp (last df)) of
             Inl e \<Rightarrow> (None, None, None)
           | Inr ts1 \<Rightarrow>
               (case utc_iso ts0 of
                  Inl e \<Rightarrow> (None, None, None)
                | Inr t0 \<Rightarrow>
                    (case utc_iso ts1 of
                       Inl e \<Rightarrow> (Some t0, None, None)
                     | Inr t1 \<Rightarrow>
                         (Some t0, Some t1,
                          (case (ts0, ts1) of
                             (Num a, Num b) \<Rightarrow> Some (b - a)
                           | _ \<Rightarrow> None))))))"

text \<open>One iteration of the loop over \<open>df.iterrows()\<close> (lines 95--105).\<close>

definition request_row_of :: "can_row \<Rightarrow> error + request_row" where
  "request_row_of row =
     (let tsv = timestamp row; i = frame_id row in
      case py_float tsv of
        Inl e \<Rightarrow> Inl e
      | Inr f \<Rightarrow>
          (if f \<noteq> NaN then
             (case utc_iso f of
                Inl e \<Rightarrow> Inl e
              | Inr t \<Rightarrow>
                  Inr \<lparr>row_idx = i, row_ts = t, row_success = True, row_latency_ms = '''',
                       row_resp_len = '''', row_err = ''''\<rparr>)
           else
             Inr \<lparr>row_idx = i, row_ts = Blank, row_success = True, row_latency_ms = '''',
                  row_resp_len = '''', row_err = ''''\<rparr>))"

fun write_requests :: "can_row list \<Rightarrow> request_row list \<Rightarrow> request_row list \<times> error option" where
  "write_requests [] written = (written, None)"
| "write_requests (row # rest) written =
     (case request_row_of row of
        Inl e \<Rightarrow> (written, Some e)
      | Inr out \<Rightarrow> write_requests rest (written @ [out]))"

text \<open>
  \<open>normalize_can(csv_path, total_frames, successes, outdir)\<close> on the frame \<open>df\<close> read
  from \<open>csv_path\<close>; \<open>df['frame_id'].iloc[-1]\<close> raises \<open>IndexError\<close> on an empty
  frame, after the system log was written.
\<close>

definition normalize_can ::
  "string \<Rightarrow> can_row list \<Rightarrow> int option \<Rightarrow> int option \<Rightarrow> can_output" where
  "normalize_can csv_path df total_frames successes_arg =
     (if df = [] then
        \<lparr>system_csv = Some df, summary_json = None, requests_csv = None, raised = Some IndexError\<rparr>
      else
        let last_frame = frame_id (last df);
            total_v = (case total_frames of Some n \<Rightarrow> n | None \<Rightarrow> last_frame);
            successes_v = (case successes_arg of Some n \<Rightarrow> n | None \<Rightarrow> total_v);
            assumed = (successes_arg = None);
            failures_v = total_v - successes_v;
            success_rate =
              (if total_v > 0
               then Some (real_of_int successes_v / real_of_int total_v * 100.0) else None);
            (t0, t1, dur) = summary_times df;
            summary =
              \<lparr>total = total_v, successes = successes_v, failures = failures_v,
               success_rate_pct = success_rate,
               lat_p50_ms = None, lat_p90_ms = None, lat_p99_ms = None, lat_mean_ms = None,
               start_time = t0, end_time = t1, duration_s = dur,
               sample_count = length df, source_csv = basename csv_path,
               assumed_all_success = assumed\<rparr>;
            (rows, exn) = write_requests df []
        in \<lparr>system_csv = Some df, summary_json = Some summary, requests_csv = Some rows,
            raised = exn\<rparr>)"

text \<open>
  A timestamp cell for which the loop over the rows does not raise, and two frames with
  \<open>frame_id\<close> 0 to 999: one with ISO-8601 text in the timestamp column, one with epoch
  seconds and one empty cell.
\<close>

definition convertible :: "csv_value \<Rightarrow> bool" where
  "convertible v \<longleftrightarrow>
     (case v of Num t \<Rightarrow> - 62135596800 \<le> t \<and> t < 253402300800 | NaN \<Rightarrow> True | Text s \<Rightarrow> False)"

definition example_bus_csv :: "can_row list" where
  "example_bus_csv =
     map (\<lambda>i. \<lparr>timestamp = Text ''2024-01-01T00:00:00'', frame_id = int i,
               cpu_percent = Num 12.5, mem_mb = Num 100, fps = Num 50\<rparr>) [0..<1000]"

definition example_epoch_csv :: "can_row list" where
  "example_epoch_csv =
     map (\<lambda>i. \<lparr>timestamp = (if i = 3 then NaN else Num (1700000000 + real i)),
               frame_id = int i, cpu_percent = Num 12.5, mem_mb = Num 100, fps = Num 50\<rparr>)
       [0..<1000]"

section \<open>Run analyzer (analyze\_runs.py)\<close>

text \<open>
  A file is what the two parsers make of it: the value \<open>json.load\<close> returns and the table
  \<open>pd.read_csv\<close> returns, \<open>None\<close> where the parser raises. The file system maps the
  paths that exist to their files.
\<close>

datatype json =
    JNull
  | JBool bool
  | JNum real
  | JStr string
  | JList "json list"
  | JDict "(string \<times> json) list"

type_synonym table = "string list \<times> string list list"

record run_file =
  as_json :: "json option"
  as_csv :: "table option"

type_synonym filesystem = "string \<rightharpoonup> run_file"

definition os_path_join :: "string \<Rightarrow> string \<Rightarrow> string" where
  "os_path_join a b =
     (if b \<noteq> [] \<and> hd b = CHR ''/'' then b
      else if a = [] \<or> last a = CHR ''/'' then a @ b
      else a @ ''/'' @ b)"

definition rstrip_slash :: "string \<Rightarrow> string" where
  "rstrip_slash path = rev (dropWhile (\<lambda>ch. ch = CHR ''/'') (rev path))"

fun is_dict :: "json \<Rightarrow> bool" where
  "is_dict (JDict items) = True"
| "is_dict other = False"

text \<open>\<open>pd.read_csv(path) if os.path.exists(path) else None\<close>.\<close>

definition read_csv_if_exists :: "filesystem \<Rightarrow> string \<Rightarrow> error + table option" where
  "read_csv_if_exists fs path =
     (case fs path of
        None \<Rightarrow> Inr None
      | Some f \<Rightarrow> (case as_csv f of None \<Rightarrow> Inl ParseError | Some t \<Rightarrow> Inr (Some t)))"

text \<open>
  \<open>load_run\<close>: \<open>summary.items()\<close> raises \<open>AttributeError\<close> when the JSON value is not
  an object.
\<close>

definition load_run ::
  "filesystem \<Rightarrow> string \<Rightarrow> error + ((string \<times> json) list \<times> table option \<times> table option)" where
  "load_run fs folder =
     (let summary_path = os_path_join folder ''summary.json'' in
      case fs summary_path of
        None \<Rightarrow> Inl FileNotFoundError
      | Some f \<Rightarrow>
          (case as_json f of
             None \<Rightarrow> Inl ParseError
           | Some summary \<Rightarrow>
               (case summary of
                  JDict items \<Rightarrow>
                    (let summary_flat = filter (\<lambda>(k, v). \<not> is_dict v) items;
                         system_csv = os_path_join folder ''system.csv'';
                         requests_csv = os_path_join folder ''requests.csv''
                     in case read_csv_if_exists fs system_csv of
                          Inl e \<Rightarrow> Inl e
                        | Inr sys_df \<Rightarrow>
                            (case read_csv_if_exists fs requests_csv of
                               Inl e \<Rightarrow> Inl e
                             | Inr req_df \<Rightarrow> Inr (summary_flat, sys_df, req_df)))
                | _ \<Rightarrow> Inl AttributeError)))"

text \<open>
  \<open>main\<close>: how the call ends, the files it wrote into the working directory, in order,
  and the content of the comparison table (the two labels with their flat summaries). The
  drawing itself is not modelled, nor an exception of pandas or matplotlib once both runs are
  loaded.
\<close>

datatype exit_status = Usage_exit | Raised error | Completed

record analysis =
  status :: exit_status
  files_written :: "string list"
  comparison :: "((string \<times> (string \<times> json) list) \<times> (string \<times> (string \<times> json) list)) option"

definition analyze_main :: "filesystem \<Rightarrow> string list \<Rightarrow> analysis" where
  "analyze_main fs argv =
     (if length argv \<noteq> 3 then \<lparr>status = Usage_exit, files_written = [], comparison = None\<rparr>
      else
        let pathA = argv ! 1; pathB = argv ! 2;
            labelA = basename (rstrip_slash pathA);
            labelB = basename (rstrip_slash pathB)
        in case load_run fs pathA of
             Inl e \<Rightarrow> \<lparr>status = Raised e, files_written = [], comparison = None\<rparr>
           | Inr (sa, sysA, reqA) \<Rightarrow>
               (case load_run fs pathB of
                  Inl e \<Rightarrow> \<lparr>status = Raised e, files_written = [], comparison = None\<rparr>
                | Inr (sb, sysB, reqB) \<Rightarrow>
                    \<lparr>status = Completed,
                     files_written = [''compare_summary.csv'', ''compare_bars.png'']
                               @ (if sysA = None \<or> sysB = None then []
                                  else [''compare_timeseries.png'']),
                     comparison = Some ((labelA, sa), (labelB, sb))\<rparr>))"

definition example_run_files :: filesystem where
  "example_run_files =
     [''results/pqc_run/summary.json'' \<mapsto>
        \<lparr>as_json = Some (JDict [(''total'', JNum 100), (''args'', JDict [])]), as_csv = None\<rparr>,
      ''results/pqc_run/system.csv'' \<mapsto>
        \<lparr>as_json = None, as_csv = Some ([''ts'', ''cpu_percent''], [[''t0'', ''3.5'']])\<rparr>]"

section \<open>Properties\<close>

subsection \<open>Envelope framing\<close>

lemma from_bytes_big_to_bytes2:
  assumes "n < 65536"
  shows "from_bytes_big [of_nat (n div 256), of_nat (n mod 256)] = n"
proof -
  have hi: "n div 256 < 256" using assms by simp
  have "unat (of_nat (n div 256) :: byte) = n div 256"
    using hi by (simp add: unat_of_nat)
  moreover have "unat (of_nat (n mod 256) :: byte) = n mod 256"
    by (simp add: unat_of_nat)
  ultimately show ?thesis by (simp add: from_bytes_big_def)
qed

lemma recv_no_timeout:
  assumes "no_timeout c" and "0 < n"
  shows "\<exists>chunk c'. recv c n = (Inr chunk, c') \<and> chunk @ payload c' = payload c
           \<and> no_timeout c' \<and> length chunk \<le> n \<and> (chunk = [] \<longleftrightarrow> payload c = [])"
  using assms
proof (induction c n rule: recv.induct)
  case (1 n)
  then show ?case by simp
next
  case (2 rest n)
  then show ?case by simp
next
  case (3 s rest n)
  show ?case
  proof (cases "s = []")
    case True
    with 3 show ?thesis by simp
  next
    case False
    then show ?thesis using 3(2,3) by (cases "length s \<le> n") auto
  qed
qed

lemma recv_exact_loop_enough:
  assumes "no_timeout c" and "length data \<le> len"
    and "len - length data \<le> length (payload c)"
  shows "\<exists>c'. recv_exact_loop w c len data = (Inr (data @ take (len - length data) (payload c)), c')
           \<and> payload c' = drop (len - length data) (payload c) \<and> no_timeout c'"
  using assms
proof (induction w c len data rule: recv_exact_loop.induct)
  case (1 w c len data)
  show ?case
  proof (cases "length data < len")
    case False
    with 1(2-) show ?thesis by simp
  next
    case True
    then have pos: "0 < len - length data" by simp
    from recv_no_timeout [OF "1.prems"(1) pos] obtain chunk c1 where
      r: "recv c (len - length data) = (Inr chunk, c1)" and
      split: "chunk @ payload c1 = payload c" and nt: "no_timeout c1" and
      le: "length chunk \<le> len - length data" and
      emp: "chunk = [] \<longleftrightarrow> payload c = []" by blast
    from True "1.prems"(3) have "payload c \<noteq> []" by auto
    with emp have ne: "chunk \<noteq> []" by simp
    have l1: "length (data @ chunk) \<le> len" using le True by simp
    have l2: "len - length (data @ chunk) \<le> length (payload c1)"
      using "1.prems"(3) split [symmetric] le by simp
    from "1.IH" [OF True r [symmetric] refl ne nt l1 l2] obtain c' where
      ih: "recv_exact_loop w c1 len (data @ chunk) =
             (Inr ((data @ chunk) @ take (len - length (data @ chunk)) (payload c1)), c')"
      and p': "payload c' = drop (len - length (data @ chunk)) (payload c1)"
      and nt': "no_timeout c'" by blast
    have t: "chunk @ take (len - length (data @ chunk)) (payload c1) = take (len - length data) (payload c)"
      using le by (simp add: split [symmetric])
    have d: "drop (len - length (data @ chunk)) (payload c1) = drop (len - length data) (payload c)"
      using le by (simp add: split [symmetric])
    have "recv_exact_loop w c len data = recv_exact_loop w c1 len (data @ chunk)"
      using True r ne by (subst recv_exact_loop.simps) simp
    with ih p' nt' t d show ?thesis by simp
  qed
qed

lemma recv_exact_loop_short:
  assumes "no_timeout c" and "length (payload c) < len - length data"
  shows "\<exists>c'. recv_exact_loop w c len data = (Inl ConnectionError, c')"
  using assms
proof (induction w c len data rule: recv_exact_loop.induct)
  case (1 w c len data)
  from "1.prems"(2) have lt: "length data < len" and pos: "0 < len - length data" by simp_all
  from recv_no_timeout [OF "1.prems"(1) pos] obtain chunk c1 where
    r: "recv c (len - length data) = (Inr chunk, c1)" and
    split: "chunk @ payload c1 = payload c" and nt: "no_timeout c1" and
    le: "length chunk \<le> len - length data" and
    emp: "chunk = [] \<longleftrightarrow> payload c = []" by blast
  show ?case
  proof (cases "chunk = []")
    case True
    then show ?thesis using lt r by (subst recv_exact_loop.simps) simp
  next
    case False
    have "length (payload c1) < len - length (data @ chunk)"
      using "1.prems"(2) split [symmetric] by simp
    from "1.IH" [OF lt r [symmetric] refl False nt this] obtain c' where
      "recv_exact_loop w c1 len (data @ chunk) = (Inl ConnectionError, c')" by blast
    moreover have "recv_exact_loop w c len data = recv_exact_loop w c1 len (data @ chunk)"
      using lt r False by (subst recv_exact_loop.simps) simp
    ultimately show ?thesis by simp
  qed
qed

lemma read_field_take:
  assumes nt: "no_timeout c" and small: "length f < 65536"
    and pc: "payload c = take k ([of_nat (length f div 256), of_nat (length f mod 256)] @ f @ rest)"
  shows "if k < 2 + length f
         then (\<exists>c'. read_field (\<lambda>c len. recv_exact_loop w c len []) c = (Inl ConnectionError, c'))
         else (\<exists>c'. read_field (\<lambda>c len. recv_exact_loop w c len []) c = (Inr (length f, f), c')
                  \<and> payload c' = take (k - (2 + length f)) rest \<and> no_timeout c')"
proof (cases "k < 2")
  case True
  then have "length (payload c) < 2 - length ([]::bytes)" using pc by simp
  from recv_exact_loop_short [OF nt this] obtain c' where
    "recv_exact_loop w c 2 [] = (Inl ConnectionError, c')" by blast
  then show ?thesis using True by (simp add: read_field_def)
next
  case False
  let ?pre = "[of_nat (length f div 256), of_nat (length f mod 256)] :: bytes"
  have "2 - length ([]::bytes) \<le> length (payload c)" using False pc by simp
  from recv_exact_loop_enough [OF nt _ this] obtain c1 where
    r1: "recv_exact_loop w c 2 [] = (Inr ([] @ take (2 - length ([]::bytes)) (payload c)), c1)"
    and p1: "payload c1 = drop (2 - length ([]::bytes)) (payload c)" and nt1: "no_timeout c1"
    by auto
  have k2: "k = 2 + (k - 2)" using False by simp
  have tk: "take 2 (payload c) = ?pre"
    using False by (simp add: pc take_Cons')
  have p1': "payload c1 = take (k - 2) (f @ rest)"
    using p1 pc by (subst (asm) k2) (simp add: drop_take)
  have n: "from_bytes_big ?pre = length f"
    using small by (rule from_bytes_big_to_bytes2)
  have r1': "recv_exact_loop w c 2 [] = (Inr ?pre, c1)" using r1 tk by simp
  show ?thesis
  proof (cases "k < 2 + length f")
    case True
    then have "length (payload c1) < length f - length ([]::bytes)"
      using p1' \<open>\<not> k < 2\<close> by simp
    from recv_exact_loop_short [OF nt1 this] obtain c' where
      "recv_exact_loop w c1 (length f) [] = (Inl ConnectionError, c')" by blast
    then show ?thesis using True r1' n by (simp add: read_field_def)
  next
    case ge: False
    then have "length f - length ([]::bytes) \<le> length (payload c1)" using p1' by simp
    from recv_exact_loop_enough [OF nt1 _ this] obtain c' where
      r2: "recv_exact_loop w c1 (length f) [] =
             (Inr ([] @ take (length f - length ([]::bytes)) (payload c1)), c')"
      and p2: "payload c' = drop (length f - length ([]::bytes)) (payload c1)"
      and nt2: "no_timeout c'" by auto
    have kk: "k - 2 = length f + (k - (2 + length f))" using ge by simp
    have "take (length f) (payload c1) = f"
      using ge by (simp add: p1')
    moreover have "drop (length f) (payload c1) = take (k - (2 + length f)) rest"
      unfolding p1' by (subst kk) (simp add: drop_take)
    ultimately show ?thesis using ge r1' n r2 p2 nt2 by (simp add: read_field_def)
  qed
qed

lemma pqc_recv_exact_eq: "pqc_recv_exact = (\<lambda>c len. recv_exact_loop False c len [])"
  by (rule ext)+ (simp add: pqc_recv_exact_def)

lemma secoc_recv_exact_eq: "secoc_recv_exact = (\<lambda>c len. recv_exact_loop True c len [])"
  by (rule ext)+ (simp add: secoc_recv_exact_def)

lemma sendall_field_eq:
  "length f < 65536 \<Longrightarrow>
   sendall_field f = Inr ([of_nat (length f div 256), of_nat (length f mod 256)] @ f)"
  by (simp add: sendall_field_def to_bytes2_def)

lemma sendall_field_length:
  "sendall_field f = Inr w \<Longrightarrow> length w = 2 + length f"
  by (auto simp: sendall_field_def to_bytes2_def split: if_splits)

lemma pqc_read_envelope_take:
  assumes nt: "no_timeout c"
    and lm: "length m < 65536" and ls: "length s < 65536" and lp: "length pk < 65536"
    and w: "pqc_sender_wire m s pk = Inr wire"
    and pc: "payload c = take k wire"
  shows "pqc_read_envelope c = (if k < length wire then Inl ConnectionError else Inr (m, s, pk))"
proof -
  let ?pre = "\<lambda>f::bytes. [of_nat (length f div 256), of_nat (length f mod 256)] :: bytes"
  have wire: "wire = ?pre m @ m @ ?pre s @ s @ ?pre pk @ pk"
    using w lm ls lp by (simp add: pqc_sender_wire_def sendall_field_eq)
  have len: "length wire = (2 + length m) + ((2 + length s) + (2 + length pk))"
    by (simp add: wire)
  have pc1: "payload c = take k (?pre m @ m @ (?pre s @ s @ ?pre pk @ pk))"
    using pc wire by simp
  note f1 = read_field_take [OF nt lm pc1, of False, folded pqc_recv_exact_eq]
  show ?thesis
  proof (cases "k < 2 + length m")
    case True
    with f1 show ?thesis by (auto simp: pqc_read_envelope_def len)
  next
    case g1: False
    with f1 obtain c1 where r1: "read_field pqc_recv_exact c = (Inr (length m, m), c1)"
      and p1: "payload c1 = take (k - (2 + length m)) (?pre s @ s @ (?pre pk @ pk))"
      and nt1: "no_timeout c1" by auto
    note f2 = read_field_take [OF nt1 ls p1, of False, folded pqc_recv_exact_eq]
    show ?thesis
    proof (cases "k - (2 + length m) < 2 + length s")
      case True
      with f2 g1 r1 show ?thesis by (auto simp: pqc_read_envelope_def len)
    next
      case g2: False
      with f2 obtain c2 where r2: "read_field pqc_recv_exact c1 = (Inr (length s, s), c2)"
        and p2: "payload c2 = take (k - (2 + length m) - (2 + length s)) (?pre pk @ pk @ [])"
        and nt2: "no_timeout c2" by auto
      note f3 = read_field_take [OF nt2 lp p2, of False, folded pqc_recv_exact_eq]
      show ?thesis
      proof (cases "k - (2 + length m) - (2 + length s) < 2 + length pk")
        case True
        with f3 g1 g2 r1 r2 show ?thesis by (auto simp: pqc_read_envelope_def len)
      next
        case g3: False
        with f3 obtain c3 where "read_field pqc_recv_exact c2 = (Inr (length pk, pk), c3)"
          by auto
        with g1 g2 g3 r1 r2 show ?thesis by (auto simp: pqc_read_envelope_def len)
      qed
    qed
  qed
qed

lemma secoc_read_envelope_take:
  assumes nt: "no_timeout c"
    and lm: "length m < 65536" and lt: "length t < 65536"
    and w: "secoc_sender_wire m t = Inr wire"
    and pc: "payload c = take k wire"
  shows "secoc_read_envelope c =
           (if k < length wire then Inl ConnectionError else Inr (m, length t, t))"
proof -
  let ?pre = "\<lambda>f::bytes. [of_nat (length f div 256), of_nat (length f mod 256)] :: bytes"
  have wire: "wire = ?pre m @ m @ ?pre t @ t"
    using w lm lt by (simp add: secoc_sender_wire_def sendall_field_eq)
  have len: "length wire = (2 + length m) + (2 + length t)"
    by (simp add: wire)
  have pc1: "payload c = take k (?pre m @ m @ (?pre t @ t @ []))"
    using pc wire by simp
  note f1 = read_field_take [OF nt lm pc1, of True, folded secoc_recv_exact_eq]
  show ?thesis
  proof (cases "k < 2 + length m")
    case True
    with f1 show ?thesis by (auto simp: secoc_read_envelope_def len)
  next
    case g1: False
    with f1 obtain c1 where r1: "read_field secoc_recv_exact c = (Inr (length m, m), c1)"
      and p1: "payload c1 = take (k - (2 + length m)) (?pre t @ t @ [])"
      and nt1: "no_timeout c1" by auto
    note f2 = read_field_take [OF nt1 lt p1, of True, folded secoc_recv_exact_eq]
    show ?thesis
    proof (cases "k - (2 + length m) < 2 + length t")
      case True
      with f2 g1 r1 show ?thesis by (auto simp: secoc_read_envelope_def len)
    next
      case g2: False
      with f2 obtain c2 where "read_field secoc_recv_exact c1 = (Inr (length t, t), c2)"
        by auto
      with g1 g2 r1 show ?thesis by (auto simp: secoc_read_envelope_def len)
    qed
  qed
qed

text \<open>
  C9. Envelope framing round trip. For fields of at most 65535 bytes the senders succeed;
  whatever the segmentation in which the socket delivers the bytes written, the exact-length
  reads of the PQC receiver return the triple (message, signature, public key) and those of
  the SECOC receiver the pair (message, tag), unchanged. When the peer closes after only the
  first \<open>k\<close> bytes, \<open>k\<close> less than the length written, the read ends in
  \<open>ConnectionError\<close> and returns no field.
\<close>

theorem framing_roundtrip_and_truncation:
  assumes "length m \<le> 65535" and "length s \<le> 65535" and "length pk \<le> 65535"
    and "length t \<le> 65535" and "no_timeout c"
  shows "(\<exists>wire. pqc_sender_wire m s pk = Inr wire
            \<and> (payload c = wire \<longrightarrow> pqc_read_envelope c = Inr (m, s, pk))
            \<and> (k < length wire \<and> payload c = take k wire
                 \<longrightarrow> pqc_read_envelope c = Inl ConnectionError))
       \<and> (\<exists>wire. secoc_sender_wire m t = Inr wire
            \<and> (payload c = wire \<longrightarrow> secoc_read_envelope c = Inr (m, length t, t))
            \<and> (k < length wire \<and> payload c = take k wire
                 \<longrightarrow> secoc_read_envelope c = Inl ConnectionError))"
proof -
  have lm: "length m < 65536" and ls: "length s < 65536" and lp: "length pk < 65536"
    and lt: "length t < 65536" using assms by simp_all
  obtain w1 where w1: "pqc_sender_wire m s pk = Inr w1"
    using lm ls lp by (simp add: pqc_sender_wire_def sendall_field_eq)
  obtain w2 where w2: "secoc_sender_wire m t = Inr w2"
    using lm lt by (simp add: secoc_sender_wire_def sendall_field_eq)
  have a: "payload c = w1 \<Longrightarrow> pqc_read_envelope c = Inr (m, s, pk)"
    using pqc_read_envelope_take [OF assms(5) lm ls lp w1, of "length w1"] by simp
  have b: "k < length w1 \<Longrightarrow> payload c = take k w1 \<Longrightarrow> pqc_read_envelope c = Inl ConnectionError"
    using pqc_read_envelope_take [OF assms(5) lm ls lp w1, of k] by simp
  have a': "payload c = w2 \<Longrightarrow> secoc_read_envelope c = Inr (m, length t, t)"
    using secoc_read_envelope_take [OF assms(5) lm lt w2, of "length w2"] by simp
  have b': "k < length w2 \<Longrightarrow> payload c = take k w2
              \<Longrightarrow> secoc_read_envelope c = Inl ConnectionError"
    using secoc_read_envelope_take [OF assms(5) lm lt w2, of k] by simp
  show ?thesis using w1 w2 a b a' b' by auto
qed

theorem framing_roundtrip_and_truncation_witness:
  "pqc_read_envelope [Data [0, 1], Data [7, 0], Data [1, 8, 0, 1, 9]] = Inr ([7], [8], [9])
   \<and> secoc_read_envelope [Data [0, 1, 7, 0], Data [1], Data [8]] = Inr ([7], 1, [8])
   \<and> pqc_read_envelope [Data [0, 1], Data [7, 0]] = Inl ConnectionError
   \<and> secoc_read_envelope [Data [0, 1], Data [7, 0]] = Inl ConnectionError"
proof -
  have p: "pqc_sender_wire [7] [8] [9] = Inr [0, 1, 7, 0, 1, 8, 0, 1, 9]"
    by (simp add: pqc_sender_wire_def sendall_field_def to_bytes2_def)
  have q: "secoc_sender_wire [7] [8] = Inr [0, 1, 7, 0, 1, 8]"
    by (simp add: secoc_sender_wire_def sendall_field_def to_bytes2_def)
  show ?thesis
    using framing_roundtrip_and_truncation
            [of "[7]" "[8]" "[9]" "[8]" "[Data [0, 1], Data [7, 0], Data [1, 8, 0, 1, 9]]" 0]
          framing_roundtrip_and_truncation
            [of "[7]" "[8]" "[9]" "[8]" "[Data [0, 1, 7, 0], Data [1], Data [8]]" 0]
          framing_roundtrip_and_truncation
            [of "[7]" "[8]" "[9]" "[8]" "[Data [0, 1], Data [7, 0]]" 4]
    by (simp add: p q)
qed

subsection \<open>PQC pre-admission check\<close>

lemma pqc_read_envelope_example:
  "pqc_read_envelope [Data [0, 1, 7, 0, 1, 8, 0, 1, 9]] = Inr ([7], [8], [9])"
  by (simp add: pqc_read_envelope_def read_field_def pqc_recv_exact_def from_bytes_big_def)

text \<open>
  C1 as stated (a CPU percentage at or above 85.0 always drops) fails at exactly 85.0: the
  comparison of the source is \<open>cpu > CPU_LIMIT\<close>, and with a draw of 0.5 the envelope is
  enqueued.
\<close>

theorem pqc_cpu_at_limit_enqueued:
  "(85::real) \<le> 85
   \<and> fst (pqc_handle_connection pqc_initial [Data [0, 1, 7, 0, 1, 8, 0, 1, 9]] 85 0.5) = Enqueued"
  by (simp add: pqc_read_envelope_example pqc_handle_connection_def pqc_initial_def
      CPU_LIMIT_def DROP_PROB_BASE_def MSG_QUEUE_maxsize_def)

text \<open>
  C1, amended. For every envelope whose read completed, a CPU percentage strictly above 85.0
  drops the message whatever the random draw: nothing is enqueued and the state is unchanged.
\<close>

theorem pqc_cpu_above_limit_drops:
  assumes "pqc_read_envelope c = Inr env" and "cpu > 85.0"
  shows "pqc_handle_connection st c cpu draw = (Admission_drop, st)"
  using assms by (simp add: pqc_handle_connection_def CPU_LIMIT_def split: prod.splits)

theorem pqc_cpu_above_limit_drops_witness:
  "pqc_read_envelope [Data [0, 1, 7, 0, 1, 8, 0, 1, 9]] = Inr ([7], [8], [9])
   \<and> (90::real) > 85.0
   \<and> pqc_handle_connection pqc_initial [Data [0, 1, 7, 0, 1, 8, 0, 1, 9]] 90 0.5
       = (Admission_drop, pqc_initial)"
  using pqc_cpu_above_limit_drops
          [of "[Data [0, 1, 7, 0, 1, 8, 0, 1, 9]]" "([7], [8], [9])" 90 pqc_initial "0.5"]
  by (simp add: pqc_read_envelope_example)

subsection \<open>SECOC drop probability\<close>

text \<open>
  C4. The SECOC receiver's drop probability is \<open>min 0.85 (cpu / 120)\<close> for every
  non-negative CPU percentage, it never decreases when the CPU percentage grows, and it is
  exactly the cap 0.85 for every CPU percentage from 102 upwards.
\<close>

theorem compute_drop_prob_formula_mono_cap:
  "(0 \<le> cpu \<longrightarrow> compute_drop_prob (Some cpu) = (min 0.85 (cpu / 120.0), cpu))
   \<and> (cpu1 \<le> cpu2 \<longrightarrow>
        fst (compute_drop_prob (Some cpu1)) \<le> fst (compute_drop_prob (Some cpu2)))
   \<and> (102 \<le> cpu \<longrightarrow> fst (compute_drop_prob (Some cpu)) = 0.85)"
  by (auto simp: compute_drop_prob_def MAX_DROP_PROB_def CPU_SCALE_def min_def)

theorem compute_drop_prob_formula_mono_cap_witness:
  "(0::real) \<le> 60 \<and> compute_drop_prob (Some 60) = (0.5, 60)
   \<and> (60::real) \<le> 102 \<and> fst (compute_drop_prob (Some 60)) \<le> fst (compute_drop_prob (Some 102))
   \<and> (102::real) \<le> 150 \<and> fst (compute_drop_prob (Some 150)) = 0.85"
  using compute_drop_prob_formula_mono_cap [of 60 60 102]
        compute_drop_prob_formula_mono_cap [of 150 60 102]
  by simp

subsection \<open>Freshness windows\<close>

text \<open>
  C5. Freshness boundaries. For a message whose last eight bytes parse as the timestamp
  \<open>stamp\<close>: the SECOC receiver (message of at least 56 bytes) drops it as stale exactly when
  \<open>now - stamp > 5\<close>, as future exactly when it is not stale and \<open>stamp - now > 5\<close>, and does
  neither exactly when \<open>now - stamp \<le> 5\<close> and \<open>stamp - now \<le> 5\<close>; the PQC worker drops it for
  freshness exactly when \<open>|now - stamp| > 30\<close>.
\<close>

theorem freshness_boundaries:
  assumes "unpack_Q (drop (length message - 8) message) = Inr stamp"
  shows "(56 \<le> length message \<longrightarrow>
            (fst (secoc_verify st message tag_len tag now calc_full hexdigest reading draw)
               \<notin> {Stale_msg, Future_msg}
             \<longleftrightarrow> now - int stamp \<le> 5 \<and> int stamp - now \<le> 5)
          \<and> (fst (secoc_verify st message tag_len tag now calc_full hexdigest reading draw)
               = Stale_msg \<longleftrightarrow> now - int stamp > 5)
          \<and> (fst (secoc_verify st message tag_len tag now calc_full hexdigest reading draw)
               = Future_msg \<longleftrightarrow> \<not> now - int stamp > 5 \<and> int stamp - now > 5))
       \<and> (fst (handle_message pst message signature public_key now msg_hash victim verdict)
             \<noteq> Not_fresh \<longleftrightarrow> \<bar>now - int stamp\<bar> \<le> 30)"
proof -
  have pqc: "fst (handle_message pst message signature public_key now msg_hash victim verdict)
               \<noteq> Not_fresh \<longleftrightarrow> \<bar>now - int stamp\<bar> \<le> 30"
    using assms by (auto simp: handle_message_def Let_def split: option.splits)
  have stale: "56 \<le> length message \<Longrightarrow> now - int stamp > 5 \<Longrightarrow>
      fst (secoc_verify st message tag_len tag now calc_full hexdigest reading draw) = Stale_msg"
    using assms
    by (simp add: secoc_verify_def Let_def FRESHNESS_MAX_AGE_def)
  have future: "56 \<le> length message \<Longrightarrow> \<not> now - int stamp > 5 \<Longrightarrow> int stamp - now > 5 \<Longrightarrow>
      fst (secoc_verify st message tag_len tag now calc_full hexdigest reading draw) = Future_msg"
    using assms
    by (simp add: secoc_verify_def Let_def FRESHNESS_MAX_AGE_def FRESHNESS_FUTURE_TOL_def)
  have no: "now - int stamp \<le> 5 \<Longrightarrow> int stamp - now \<le> 5 \<Longrightarrow> 56 \<le> length message \<Longrightarrow>
      fst (secoc_verify st message tag_len tag now calc_full hexdigest reading draw)
        \<notin> {Stale_msg, Future_msg}"
    using assms
    by (auto simp: secoc_verify_def Let_def FRESHNESS_MAX_AGE_def FRESHNESS_FUTURE_TOL_def
        split: sum.splits prod.splits)
  show ?thesis
  proof (cases "56 \<le> length message")
    case False
    with pqc show ?thesis by simp
  next
    case True
    consider "now - int stamp > 5" | "\<not> now - int stamp > 5" "int stamp - now > 5"
      | "now - int stamp \<le> 5" "int stamp - now \<le> 5" by linarith
    then show ?thesis
    proof cases
      case 1
      with stale [OF True] pqc show ?thesis by simp
    next
      case 2
      with future [OF True] pqc show ?thesis by simp
    next
      case 3
      with no [OF _ _ True] pqc show ?thesis by auto
    qed
  qed
qed

lemma example_message_length: "length example_message = 56"
  by (simp add: example_message_def)

lemma example_message_freshness:
  "unpack_Q (drop (length example_message - 8) example_message) = Inr 100"
  by (simp add: example_message_def unpack_Q_def from_bytes_big_def)

lemma example_message_ts: "from_bytes_big (drop 48 example_message) = 100"
  by (simp add: example_message_def from_bytes_big_def)

text \<open>Ages 5 and 6, future skews 5 and 6, and differences 30 and 31 in both directions.\<close>

theorem freshness_boundaries_witness:
  "unpack_Q (drop (length example_message - 8) example_message) = Inr 100
   \<and> 56 \<le> length example_message
   \<and> fst (secoc_verify secoc_initial example_message 0 [] 105 [] ''h'' (Some 0) 1)
       \<notin> {Stale_msg, Future_msg}
   \<and> fst (secoc_verify secoc_initial example_message 0 [] 106 [] ''h'' (Some 0) 1) = Stale_msg
   \<and> fst (secoc_verify secoc_initial example_message 0 [] 95 [] ''h'' (Some 0) 1)
       \<notin> {Stale_msg, Future_msg}
   \<and> fst (secoc_verify secoc_initial example_message 0 [] 94 [] ''h'' (Some 0) 1) = Future_msg
   \<and> fst (handle_message pqc_initial example_message [] [] 130 ''h'' ''h'' (Some True)) \<noteq> Not_fresh
   \<and> fst (handle_message pqc_initial example_message [] [] 131 ''h'' ''h'' (Some True)) = Not_fresh
   \<and> fst (handle_message pqc_initial example_message [] [] 70 ''h'' ''h'' (Some True)) \<noteq> Not_fresh
   \<and> fst (handle_message pqc_initial example_message [] [] 69 ''h'' ''h'' (Some True)) = Not_fresh"
proof -
  note b = freshness_boundaries [OF example_message_freshness, of secoc_initial 0 "[]" _ "[]"
             "''h''" "Some 0" 1 pqc_initial "[]" "[]" "''h''" "''h''" "Some True"]
  have "fst (secoc_verify secoc_initial example_message 0 [] 105 [] ''h'' (Some 0) 1)
          \<notin> {Stale_msg, Future_msg}"
    using b [of 105] by (simp add: example_message_length)
  moreover have "fst (secoc_verify secoc_initial example_message 0 [] 106 [] ''h'' (Some 0) 1)
          = Stale_msg"
    using b [of 106] by (simp add: example_message_length)
  moreover have "fst (secoc_verify secoc_initial example_message 0 [] 95 [] ''h'' (Some 0) 1)
          \<notin> {Stale_msg, Future_msg}"
    using b [of 95] by (simp add: example_message_length)
  moreover have "fst (secoc_verify secoc_initial example_message 0 [] 94 [] ''h'' (Some 0) 1)
          = Future_msg"
    using b [of 94] by (simp add: example_message_length)
  moreover have
    "fst (handle_message pqc_initial example_message [] [] 130 ''h'' ''h'' (Some True)) \<noteq> Not_fresh"
    using b [of 130] by simp
  moreover have
    "fst (handle_message pqc_initial example_message [] [] 131 ''h'' ''h'' (Some True)) = Not_fresh"
    using b [of 131] by simp
  moreover have
    "fst (handle_message pqc_initial example_message [] [] 70 ''h'' ''h'' (Some True)) \<noteq> Not_fresh"
    using b [of 70] by simp
  moreover have
    "fst (handle_message pqc_initial example_message [] [] 69 ''h'' ''h'' (Some True)) = Not_fresh"
    using b [of 69] by simp
  ultimately show ?thesis
    using example_message_freshness example_message_length by simp
qed

subsection \<open>SECOC authentication with an empty tag\<close>

lemma record_replay_new:
  assumes "h |\<notin>| REPLAY_SET st"
    and "fcard (REPLAY_SET st) < REPLAY_CACHE_SIZE \<or> REPLAY_CACHE st \<noteq> []"
  shows "\<exists>st'. record_replay st h = Inr (True, st') \<and> h |\<in>| REPLAY_SET st'"
  using assms by (cases "REPLAY_CACHE st") (auto simp: record_replay_def)

text \<open>
  C3. An envelope with a zero-length tag over a fresh, not yet seen 56-byte message passes the
  HMAC comparison of the SECOC receiver whatever the digest \<open>calc_full\<close> is, hence without
  knowledge of the secret: the handler never reports an HMAC mismatch, and the message is
  accepted unless the overload draw drops it.
\<close>

theorem zero_length_tag_passes_authentication:
  assumes wire: "secoc_sender_wire message [] = Inr wire"
    and c: "no_timeout c" "payload c = wire"
    and len: "length message = 56"
    and fresh: "now - int (from_bytes_big (drop 48 message)) \<le> 5"
               "int (from_bytes_big (drop 48 message)) - now \<le> 5"
    and new: "take 32 hexdigest |\<notin>| REPLAY_SET st"
    and room: "fcard (REPLAY_SET st) < REPLAY_CACHE_SIZE \<or> REPLAY_CACHE st \<noteq> []"
  shows "secoc_read_envelope c = Inr (message, 0, [])
       \<and> fst (secoc_handle_connection st c now calc_full hexdigest reading draw) \<noteq> HMAC_mismatch
       \<and> (if draw < fst (compute_drop_prob reading)
          then fst (secoc_handle_connection st c now calc_full hexdigest reading draw)
                 = Overload_drop
          else \<exists>decoded. fst (secoc_handle_connection st c now calc_full hexdigest reading draw)
                 = Valid_msg decoded)"
proof -
  have rd: "secoc_read_envelope c = Inr (message, 0, [])"
    using secoc_read_envelope_take [OF c(1) _ _ wire, of "length wire"] c(2) len by simp
  from record_replay_new [OF new room] obtain st' where
    rr: "record_replay st (take 32 hexdigest) = Inr (True, st')" by blast
  have uq: "unpack_Q (drop (length message - 8) message)
              = Inr (from_bytes_big (drop 48 message))"
    using len by (simp add: unpack_Q_def)
  obtain decoded where up: "unpack_payload (take (length message - 8) message) = Inr decoded"
    using len by (simp add: unpack_payload_def)
  have "secoc_handle_connection st c now calc_full hexdigest reading draw =
          (if draw < fst (compute_drop_prob reading) then (Overload_drop, st')
           else (Valid_msg decoded, st'))"
    using len fresh new rr uq up
    by (simp add: secoc_handle_connection_def rd secoc_verify_def Let_def
        FRESHNESS_MAX_AGE_def FRESHNESS_FUTURE_TOL_def split: prod.splits)
  with rd show ?thesis by auto
qed

lemma example_wire:
  "secoc_sender_wire example_message [] = Inr ([0, 56] @ example_message @ [0, 0])"
  by (simp add: secoc_sender_wire_def sendall_field_def to_bytes2_def example_message_length)

theorem zero_length_tag_passes_authentication_witness:
  "secoc_sender_wire example_message [] = Inr ([0, 56] @ example_message @ [0, 0])
   \<and> no_timeout [Data [0, 56], Data example_message, Data [0, 0]]
   \<and> payload [Data [0, 56], Data example_message, Data [0, 0]]
       = [0, 56] @ example_message @ [0, 0]
   \<and> length example_message = 56
   \<and> 100 - int (from_bytes_big (drop 48 example_message)) \<le> 5
   \<and> int (from_bytes_big (drop 48 example_message)) - 100 \<le> 5
   \<and> take 32 ''d'' |\<notin>| REPLAY_SET secoc_initial
   \<and> fcard (REPLAY_SET secoc_initial) < REPLAY_CACHE_SIZE
   \<and> secoc_read_envelope [Data [0, 56], Data example_message, Data [0, 0]]
       = Inr (example_message, 0, [])
   \<and> (\<exists>decoded. fst (secoc_handle_connection secoc_initial
          [Data [0, 56], Data example_message, Data [0, 0]] 100 (replicate 32 255) ''d''
          (Some 0) 1) = Valid_msg decoded)"
proof -
  have room: "fcard (REPLAY_SET secoc_initial) < REPLAY_CACHE_SIZE"
    by (simp add: secoc_initial_def REPLAY_CACHE_SIZE_def fcard_fempty)
  have new: "take 32 ''d'' |\<notin>| REPLAY_SET secoc_initial"
    by (simp add: secoc_initial_def)
  have p: "payload [Data [0, 56], Data example_message, Data [0, 0]]
             = [0, 56] @ example_message @ [0, 0]" by simp
  have nt: "no_timeout [Data [0, 56], Data example_message, Data [0, 0]]" by simp
  have f1: "100 - int (from_bytes_big (drop 48 example_message)) \<le> 5"
    and f2: "int (from_bytes_big (drop 48 example_message)) - 100 \<le> 5"
    by (simp_all add: example_message_ts)
  have dp: "\<not> 1 < fst (compute_drop_prob (Some 0))"
    by (simp add: compute_drop_prob_def MAX_DROP_PROB_def CPU_SCALE_def)
  from zero_length_tag_passes_authentication
         [OF example_wire nt p example_message_length f1 f2 new disjI1 [OF room],
          of "replicate 32 255" "Some 0" 1]
  show ?thesis
    using example_wire nt p example_message_length f1 f2 new room dp by simp
qed

subsection \<open>Replay caches\<close>

lemma fcard_fset_of_list_distinct: "distinct xs \<Longrightarrow> fcard (fset_of_list xs) = length xs"
  by (simp add: fcard.rep_eq fset_of_list.rep_eq distinct_card)

lemma secoc_inv_fcard: "secoc_inv st \<Longrightarrow> fcard (REPLAY_SET st) = length (REPLAY_CACHE st)"
  by (simp add: secoc_inv_def fcard_fset_of_list_distinct)

lemma secoc_inv_initial: "secoc_inv secoc_initial"
  by (simp add: secoc_inv_def secoc_initial_def)

lemma fset_of_list_tl_distinct:
  "distinct (x # q) \<Longrightarrow> fset_of_list (x # q) |-| {|x|} = fset_of_list q"
  by (auto simp: fset_of_list_elem)

lemma record_replay_seen:
  "h |\<in>| REPLAY_SET st \<Longrightarrow> record_replay st h = Inr (False, st)"
  by (simp add: record_replay_def)

lemma record_replay_below_capacity:
  assumes "secoc_inv st" and "h |\<notin>| REPLAY_SET st"
    and "fcard (REPLAY_SET st) < REPLAY_CACHE_SIZE"
  shows "record_replay st h =
           Inr (True, \<lparr>REPLAY_CACHE = REPLAY_CACHE st @ [h],
                       REPLAY_SET = finsert h (REPLAY_SET st)\<rparr>)"
  using assms by (simp add: record_replay_def deque_append_def secoc_inv_fcard)

lemma record_replay_at_capacity:
  assumes inv: "secoc_inv st" and new: "h |\<notin>| REPLAY_SET st"
    and full: "fcard (REPLAY_SET st) = REPLAY_CACHE_SIZE"
  shows "record_replay st h =
           Inr (True, \<lparr>REPLAY_CACHE = tl (REPLAY_CACHE st) @ [h],
                       REPLAY_SET = finsert h (REPLAY_SET st |-| {|hd (REPLAY_CACHE st)|})\<rparr>)"
proof -
  have len: "length (REPLAY_CACHE st) = REPLAY_CACHE_SIZE"
    using inv full by (simp add: secoc_inv_fcard)
  then obtain x q where q: "REPLAY_CACHE st = x # q"
    by (cases "REPLAY_CACHE st") (auto simp: REPLAY_CACHE_SIZE_def)
  with len have "length q < REPLAY_CACHE_SIZE" by simp
  then show ?thesis using new full q by (simp add: record_replay_def deque_append_def)
qed

lemma record_replay_inv:
  assumes inv: "secoc_inv st"
  shows "\<exists>b st'. record_replay st h = Inr (b, st') \<and> secoc_inv st'"
proof (cases "h |\<in>| REPLAY_SET st")
  case True
  with inv show ?thesis by (auto simp: record_replay_seen)
next
  case new: False
  have le: "fcard (REPLAY_SET st) \<le> REPLAY_CACHE_SIZE"
    using inv by (simp add: secoc_inv_def fcard_fset_of_list_distinct)
  have hq: "h \<notin> set (REPLAY_CACHE st)"
    using new inv by (simp add: secoc_inv_def fset_of_list_elem)
  show ?thesis
  proof (cases "fcard (REPLAY_SET st) < REPLAY_CACHE_SIZE")
    case True
    have "secoc_inv \<lparr>REPLAY_CACHE = REPLAY_CACHE st @ [h],
                     REPLAY_SET = finsert h (REPLAY_SET st)\<rparr>"
      using inv hq True by (auto simp: secoc_inv_def fcard_fset_of_list_distinct)
    with record_replay_below_capacity [OF inv new True] show ?thesis by auto
  next
    case False
    with le have full: "fcard (REPLAY_SET st) = REPLAY_CACHE_SIZE" by simp
    then have len: "length (REPLAY_CACHE st) = REPLAY_CACHE_SIZE"
      using inv by (simp add: secoc_inv_fcard)
    then obtain x q where q: "REPLAY_CACHE st = x # q"
      by (cases "REPLAY_CACHE st") (auto simp: REPLAY_CACHE_SIZE_def)
    have "secoc_inv \<lparr>REPLAY_CACHE = tl (REPLAY_CACHE st) @ [h],
                     REPLAY_SET = finsert h (REPLAY_SET st |-| {|hd (REPLAY_CACHE st)|})\<rparr>"
      using inv hq len q by (auto simp: secoc_inv_def fset_of_list_elem)
    with record_replay_at_capacity [OF inv new full] show ?thesis by auto
  qed
qed

lemma record_all_inv:
  "secoc_inv st \<Longrightarrow> \<exists>st'. record_all st hs = Inr st' \<and> secoc_inv st'"
proof (induction hs arbitrary: st)
  case Nil
  then show ?case by simp
next
  case (Cons h hs)
  from record_replay_inv [OF Cons.prems, of h] obtain b st1 where
    "record_replay st h = Inr (b, st1)" and "secoc_inv st1" by blast
  with Cons.IH [of st1] show ?case by simp
qed

lemma record_all_append:
  "record_all st (xs @ ys) =
     (case record_all st xs of Inl e \<Rightarrow> Inl e | Inr st' \<Rightarrow> record_all st' ys)"
  by (induction xs arbitrary: st) (auto split: sum.splits)

lemma record_all_distinct:
  assumes "distinct hs"
  shows "record_all secoc_initial hs =
           Inr \<lparr>REPLAY_CACHE = drop (length hs - REPLAY_CACHE_SIZE) hs,
                REPLAY_SET = fset_of_list (drop (length hs - REPLAY_CACHE_SIZE) hs)\<rparr>"
  using assms
proof (induction hs rule: rev_induct)
  case Nil
  then show ?case by (simp add: secoc_initial_def)
next
  case (snoc h hs)
  let ?q = "drop (length hs - REPLAY_CACHE_SIZE) hs"
  let ?st = "\<lparr>REPLAY_CACHE = ?q, REPLAY_SET = fset_of_list ?q\<rparr>"
  from snoc have run: "record_all secoc_initial hs = Inr ?st" and d: "distinct hs"
    and hn: "h \<notin> set hs" by simp_all
  have inv: "secoc_inv ?st"
    using d by (simp add: secoc_inv_def)
  have new: "h |\<notin>| REPLAY_SET ?st"
    using hn by (auto simp: fset_of_list_elem dest: in_set_dropD)
  have card: "fcard (REPLAY_SET ?st) = length ?q"
    using secoc_inv_fcard [OF inv] by simp
  show ?case
  proof (cases "length hs < REPLAY_CACHE_SIZE")
    case True
    then have "fcard (REPLAY_SET ?st) < REPLAY_CACHE_SIZE" using card by simp
    from record_replay_below_capacity [OF inv new this] True run
    show ?thesis by (simp add: record_all_append)
  next
    case False
    then have full: "fcard (REPLAY_SET ?st) = REPLAY_CACHE_SIZE" using card by simp
    have tl: "tl ?q = drop (Suc (length hs) - REPLAY_CACHE_SIZE) hs"
      using False by (simp add: tl_drop drop_Suc Suc_diff_le)
    have ne: "?q \<noteq> []" using False by (simp add: REPLAY_CACHE_SIZE_def)
    have dq: "distinct ?q" using d by simp
    obtain x q' where xq: "?q = x # q'" using ne by (cases ?q) auto
    have "fset_of_list (x # q') |-| {|x|} = fset_of_list q'"
      using dq unfolding xq by (rule fset_of_list_tl_distinct)
    then have "fset_of_list ?q |-| {|hd ?q|} = fset_of_list (tl ?q)"
      by (simp add: xq)
    moreover have "Suc 0 - REPLAY_CACHE_SIZE = 0" by (simp add: REPLAY_CACHE_SIZE_def)
    ultimately show ?thesis
      using record_replay_at_capacity [OF inv new full] run tl False
      by (simp add: record_all_append)
  qed
qed

lemma handle_message_bounded:
  assumes "fcard (SEEN_HASHES pst) \<le> MAX_HASHES"
    and "victim |\<in>| finsert msg_hash (SEEN_HASHES pst)"
  shows "fcard (SEEN_HASHES (snd (handle_message pst m s pk now msg_hash victim verdict)))
           \<le> MAX_HASHES"
proof -
  let ?seen = "finsert msg_hash (SEEN_HASHES pst)"
  have "fcard ?seen \<le> Suc MAX_HASHES"
    using assms(1) by (simp add: fcard_finsert_if)
  then have "fcard (?seen |-| {|victim|}) \<le> MAX_HASHES"
    using assms(2) fcard_Suc_fminus1 [of victim ?seen] by simp
  then show ?thesis
    using assms(1)
    by (auto simp: handle_message_def Let_def split: sum.splits option.splits)
qed

lemma example_fingerprints_distinct: "distinct (example_fingerprints n)"
  by (auto simp: example_fingerprints_def distinct_map intro!: inj_onI dest: arg_cong [of _ _ length])

lemma example_fingerprints_length: "length (example_fingerprints n) = n"
  by (simp add: example_fingerprints_def)

lemma example_fingerprints_new: "replicate n (CHR ''a'') \<notin> set (example_fingerprints n)"
  by (auto simp: example_fingerprints_def dest: arg_cong [of _ _ length])

lemma handle_message_records:
  assumes "unpack_Q (drop (length m - 8) m) = Inr stamp" and "\<bar>now - int stamp\<bar> \<le> 30"
    and "h |\<notin>| SEEN_HASHES pst"
  shows "SEEN_HASHES (snd (handle_message pst m s pk now h victim verdict)) =
           (if fcard (SEEN_HASHES pst) \<ge> MAX_HASHES
            then finsert h (SEEN_HASHES pst) |-| {|victim|}
            else finsert h (SEEN_HASHES pst))"
  using assms
  by (auto simp: handle_message_def Let_def fcard_finsert_if split: option.splits)

lemma handle_message_keeps:
  "fst (handle_message pst m s pk now h victim verdict) \<in> {Bad_freshness, Not_fresh, Replayed}
   \<Longrightarrow> snd (handle_message pst m s pk now h victim verdict) = pst"
  by (auto simp: handle_message_def Let_def split: sum.splits option.splits if_splits)

text \<open>
  A call whose statements run without another worker in between does what
  \<open>handle_message\<close> describes.
\<close>

lemma handle_message_as_steps:
  assumes "fcard (finsert msg_hash seen) \<le> MAX_HASHES \<or> victim |\<in>| finsert msg_hash seen"
  shows "run_threads (seen, [(At_freshness (Call message now msg_hash verdict), [])])
           [(0, victim), (0, victim), (0, victim), (0, victim), (0, victim), (0, victim)]
         = (SEEN_HASHES (snd (handle_message \<lparr>SEEN_HASHES = seen, MSG_QUEUE = q\<rparr>
                                 message signature public_key now msg_hash victim verdict)),
            [(Returned (fst (handle_message \<lparr>SEEN_HASHES = seen, MSG_QUEUE = q\<rparr>
                                 message signature public_key now msg_hash victim verdict)), [])])"
proof (cases "unpack_Q (drop (length message - 8) message)")
  case (Inl e)
  then show ?thesis
    by (simp add: run_threads_def handle_message_def Let_def take_call_def)
next
  case (Inr stamp)
  show ?thesis
  proof (cases "\<bar>now - int stamp\<bar> > 30")
    case True
    with Inr show ?thesis
      by (simp add: run_threads_def handle_message_def Let_def take_call_def)
  next
    case fresh: False
    show ?thesis
    proof (cases "msg_hash |\<in>| seen")
      case True
      with Inr fresh show ?thesis
        by (simp add: run_threads_def handle_message_def Let_def take_call_def)
    next
      case new: False
      show ?thesis
      proof (cases "fcard (finsert msg_hash seen) > MAX_HASHES")
        case True
        with assms have "victim |\<in>| finsert msg_hash seen" by simp
        with Inr fresh new True show ?thesis
          by (cases verdict)
             (simp_all add: run_threads_def handle_message_def Let_def take_call_def)
      next
        case False
        with Inr fresh new show ?thesis
          by (cases verdict)
             (simp_all add: run_threads_def handle_message_def Let_def take_call_def)
      qed
    qed
  qed
qed

text \<open>
  Every step keeps the set within 2048 plus the number of workers between their \<open>add\<close>
  and their eviction.
\<close>

lemma pending_update:
  "i < length ws \<Longrightarrow>
   pending (ws[i := w]) + (if in_flight (fst (ws ! i)) then 1 else 0)
     = pending ws + (if in_flight (fst w) then 1 else 0)"
proof (induction ws arbitrary: i)
  case Nil
  then show ?case by simp
next
  case (Cons a ws)
  then show ?case by (cases i) (auto simp: pending_def)
qed

lemma pending_le_length: "pending ws \<le> length ws"
  by (simp add: pending_def)

lemma thread_step_change:
  assumes "thread_step victim seen w = (seen', w')"
  shows "fcard seen' + (if in_flight (fst w) then 1 else 0)
           \<le> fcard seen + (if in_flight (fst w') then 1 else 0)
         \<or> fcard seen' \<le> MAX_HASHES"
proof -
  obtain pc todo where w: "w = (pc, todo)" by (cases w)
  show ?thesis
  proof (cases pc)
    case Waiting
    with assms w show ?thesis by (cases todo) (auto simp: take_call_def)
  next
    case (Returned out)
    with assms w show ?thesis by (cases todo) (auto simp: take_call_def)
  next
    case Raised_KeyError
    with assms w show ?thesis by (cases todo) (auto simp: take_call_def)
  next
    case (At_freshness c)
    with assms w show ?thesis by (cases c) (auto split: sum.splits if_splits)
  next
    case (At_membership c)
    with assms w show ?thesis by (cases c) (auto split: if_splits)
  next
    case (At_add c)
    with assms w show ?thesis by (cases c) (auto simp: fcard_finsert_if)
  next
    case (At_len c)
    with assms w show ?thesis by (auto split: if_splits)
  next
    case (At_pop c)
    with assms w show ?thesis
      by (auto simp: fcard_fminus_fsingleton_if fcard_fempty split: if_splits)
  next
    case (At_verify c)
    with assms w show ?thesis by (cases c) (auto split: option.splits if_splits)
  qed
qed

lemma sched_step_inv:
  assumes "fcard (fst cfg) \<le> MAX_HASHES + pending (snd cfg)"
  shows "fcard (fst (sched_step cfg entry)) \<le> MAX_HASHES + pending (snd (sched_step cfg entry))"
proof -
  obtain seen ws where cfg: "cfg = (seen, ws)" by (cases cfg)
  obtain i victim where entry: "entry = (i, victim)" by (cases entry)
  show ?thesis
  proof (cases "i < length ws")
    case False
    with assms cfg entry show ?thesis by simp
  next
    case True
    obtain seen' w' where st: "thread_step victim seen (ws ! i) = (seen', w')"
      by (cases "thread_step victim seen (ws ! i)")
    have res: "sched_step cfg entry = (seen', ws[i := w'])"
      using True st cfg entry by simp
    note upd = pending_update [OF True, of w']
    from thread_step_change [OF st] show ?thesis
    proof
      assume "fcard seen' + (if in_flight (fst (ws ! i)) then 1 else 0)
                \<le> fcard seen + (if in_flight (fst w') then 1 else 0)"
      with assms upd cfg show ?thesis unfolding res by (auto split: if_splits)
    next
      assume "fcard seen' \<le> MAX_HASHES"
      then show ?thesis unfolding res by simp
    qed
  qed
qed

lemma sched_step_length: "length (snd (sched_step cfg entry)) = length (snd cfg)"
  by (cases cfg; cases entry) (auto split: prod.splits)

lemma run_threads_inv:
  assumes "fcard (fst cfg) \<le> MAX_HASHES + pending (snd cfg)"
  shows "fcard (fst (run_threads cfg schedule))
           \<le> MAX_HASHES + pending (snd (run_threads cfg schedule))"
  using assms unfolding run_threads_def
proof (induction schedule arbitrary: cfg)
  case Nil
  then show ?case by simp
next
  case (Cons entry schedule)
  from Cons.IH [OF sched_step_inv [OF Cons.prems]] show ?case by simp
qed

lemma run_threads_length: "length (snd (run_threads cfg schedule)) = length (snd cfg)"
  unfolding run_threads_def
  by (induction schedule arbitrary: cfg) (simp_all add: sched_step_length)

lemma example_fingerprints_longer:
  "n \<le> k \<Longrightarrow> replicate k (CHR ''a'') \<notin> set (example_fingerprints n)"
  by (auto simp: example_fingerprints_def dest: arg_cong [of _ _ length])

lemma example_fingerprints_member:
  "k < n \<Longrightarrow> replicate k (CHR ''a'') \<in> set (example_fingerprints n)"
  by (auto simp: example_fingerprints_def)

lemma example_full_set_card: "fcard example_full_set = 2048"
  by (simp add: example_full_set_def fcard_fset_of_list_distinct example_fingerprints_distinct
      example_fingerprints_length)

lemma example_hashes_new:
  "example_hash_a |\<notin>| example_full_set" "example_hash_b |\<notin>| example_full_set"
  "example_hash_b \<noteq> example_hash_a" "example_hash_a \<noteq> example_hash_b"
  "'''' |\<in>| example_full_set" "'''' \<noteq> example_hash_a" "'''' \<noteq> example_hash_b"
proof -
  show "example_hash_a |\<notin>| example_full_set"
    using example_fingerprints_longer [of 2048 2048]
    by (simp add: example_full_set_def example_hash_a_def fset_of_list_elem)
  show "example_hash_b |\<notin>| example_full_set"
    using example_fingerprints_longer [of 2048 2049]
    by (simp add: example_full_set_def example_hash_b_def fset_of_list_elem)
  have "length example_hash_b \<noteq> length example_hash_a"
    by (simp add: example_hash_a_def example_hash_b_def)
  then show "example_hash_b \<noteq> example_hash_a" "example_hash_a \<noteq> example_hash_b" by auto
  show "'''' |\<in>| example_full_set"
    using example_fingerprints_member [of 0 2048]
    by (simp add: example_full_set_def fset_of_list_elem)
  have "length example_hash_a \<noteq> 0" "length example_hash_b \<noteq> 0"
    by (simp_all add: example_hash_a_def example_hash_b_def)
  then show "'''' \<noteq> example_hash_a" "'''' \<noteq> example_hash_b" by auto
qed

lemma example_run:
  "run_threads (example_full_set, example_workers) example_schedule =
     (finsert example_hash_b (finsert example_hash_a example_full_set) |-| {|''''|},
      [(Returned PQC_verified, []),
       (At_len (Call example_message 100 example_hash_b (Some True)), [])])"
  by (simp add: run_threads_def example_workers_def example_schedule_def take_call_def
      example_message_freshness example_hashes_new example_full_set_card fcard_finsert_if
      MAX_HASHES_def)

lemma example_run_complete:
  "run_threads (example_full_set, example_workers)
     example_schedule_complete =
     (finsert example_hash_b (finsert example_hash_a example_full_set) |-| {|''''|} |-| {|''a''|},
      [(Returned PQC_verified, []), (Returned PQC_verified, [])])"
proof -
  have mem: "''a'' |\<in>| example_full_set"
    using example_fingerprints_member [of 1 2048]
    by (simp add: example_full_set_def fset_of_list_elem)
  have card: "fcard (finsert example_hash_b (finsert example_hash_a example_full_set) |-| {|''''|})
          = 2049"
    by (simp add: fcard_fminus_fsingleton_if fcard_finsert_if example_hashes_new
        example_full_set_card)
  have "run_threads (example_full_set, example_workers) example_schedule_complete
        = run_threads (run_threads (example_full_set, example_workers) example_schedule)
            [(1, ''a''), (1, ''a''), (1, ''a'')]"
    by (simp add: run_threads_def example_schedule_complete_def)
  then show ?thesis
    by (simp add: example_run) (simp add: run_threads_def card mem MAX_HASHES_def)
qed

text \<open>
  C6 as stated (after every completed \<open>handle_message\<close> the PQC cache holds at most 2048
  fingerprints) fails when calls overlap: with 2048 fingerprints in the set, two workers add
  their fingerprints (2050), the first tests the length, evicts one entry (2049), verifies
  and returns, while the second has not reached its own test yet. At the return of the first
  call the set holds 2049 fingerprints.
\<close>

theorem pqc_interleaved_call_completes_above_capacity:
  "fcard example_full_set \<le> 2048
   \<and> pending example_workers = 0
   \<and> snd (run_threads (example_full_set, example_workers) example_schedule) ! 0
       = (Returned PQC_verified, [])
   \<and> fcard (fst (run_threads (example_full_set, example_workers) example_schedule)) = 2049"
proof -
  have "fcard (finsert example_hash_b (finsert example_hash_a example_full_set) |-| {|''''|})
          = 2049"
    by (simp add: fcard_fminus_fsingleton_if fcard_finsert_if example_hashes_new
        example_full_set_card)
  moreover have "pending example_workers = 0"
    by (simp add: pending_def example_workers_def)
  ultimately show ?thesis
    by (simp add: example_run example_full_set_card)
qed

text \<open>
  C6, amended. Replay-cache bounds and eviction order. Whatever fingerprints the SECOC
  receiver records, starting from the empty cache, \<open>record_replay\<close> never fails and keeps
  at most 1024 of them, the set holding exactly the fingerprints of the deque. Recording a new
  fingerprint at capacity removes exactly the oldest one (the head of the deque) and appends
  the new one; for distinct fingerprints the cache holds the last 1024 of them in order of
  arrival. In the PQC receiver a \<open>handle_message\<close> on a fresh message with a new
  fingerprint records it and, when the set then exceeds 2048, removes the one element
  \<open>pop\<close> picks, so a call that starts with at most 2048 fingerprints ends with at most
  2048. With workers side by side, from a set of at most 2048, the set never holds more than
  2048 plus the number of workers between their \<open>add\<close> and their eviction (at most one
  per worker), and at most 2048 whenever no worker is there. The statements of one call, run
  without another worker in between, have the effect of \<open>handle_message\<close>.
\<close>

theorem replay_caches_bounded_and_fifo:
  "(\<exists>st'. record_all secoc_initial hs = Inr st'
       \<and> fcard (REPLAY_SET st') \<le> 1024 \<and> length (REPLAY_CACHE st') \<le> 1024
       \<and> REPLAY_SET st' = fset_of_list (REPLAY_CACHE st'))
   \<and> (record_all secoc_initial hs = Inr st \<and> h |\<notin>| REPLAY_SET st
        \<and> fcard (REPLAY_SET st) = 1024 \<longrightarrow>
       record_replay st h =
         Inr (True, \<lparr>REPLAY_CACHE = tl (REPLAY_CACHE st) @ [h],
                     REPLAY_SET = finsert h (REPLAY_SET st |-| {|hd (REPLAY_CACHE st)|})\<rparr>))
   \<and> (distinct hs \<longrightarrow>
       record_all secoc_initial hs =
         Inr \<lparr>REPLAY_CACHE = drop (length hs - 1024) hs,
              REPLAY_SET = fset_of_list (drop (length hs - 1024) hs)\<rparr>)
   \<and> (unpack_Q (drop (length m - 8) m) = Inr stamp \<and> \<bar>now - int stamp\<bar> \<le> 30
        \<and> msg_hash |\<notin>| SEEN_HASHES pst \<longrightarrow>
       SEEN_HASHES (snd (handle_message pst m s pk now msg_hash victim verdict)) =
         (if 2048 \<le> fcard (SEEN_HASHES pst)
          then finsert msg_hash (SEEN_HASHES pst) |-| {|victim|}
          else finsert msg_hash (SEEN_HASHES pst)))
   \<and> (fcard (SEEN_HASHES pst) \<le> 2048 \<and> victim |\<in>| finsert msg_hash (SEEN_HASHES pst) \<longrightarrow>
       fcard (SEEN_HASHES (snd (handle_message pst m s pk now msg_hash victim verdict))) \<le> 2048)
   \<and> (fcard seen \<le> 2048 \<and> pending ws = 0 \<longrightarrow>
       fcard (fst (run_threads (seen, ws) schedule))
         \<le> 2048 + pending (snd (run_threads (seen, ws) schedule))
       \<and> pending (snd (run_threads (seen, ws) schedule)) \<le> length ws
       \<and> (pending (snd (run_threads (seen, ws) schedule)) = 0 \<longrightarrow>
            fcard (fst (run_threads (seen, ws) schedule)) \<le> 2048))
   \<and> (fcard (finsert msg_hash seen) \<le> 2048 \<or> victim |\<in>| finsert msg_hash seen \<longrightarrow>
       run_threads (seen, [(At_freshness (Call m now msg_hash verdict), [])])
         [(0, victim), (0, victim), (0, victim), (0, victim), (0, victim), (0, victim)]
       = (SEEN_HASHES (snd (handle_message \<lparr>SEEN_HASHES = seen, MSG_QUEUE = []\<rparr>
                               m s pk now msg_hash victim verdict)),
          [(Returned (fst (handle_message \<lparr>SEEN_HASHES = seen, MSG_QUEUE = []\<rparr>
                               m s pk now msg_hash victim verdict)), [])]))"
proof -
  from record_all_inv [OF secoc_inv_initial, of hs] obtain st' where
    run: "record_all secoc_initial hs = Inr st'" and inv: "secoc_inv st'" by blast
  have a: "\<exists>st'. record_all secoc_initial hs = Inr st'
       \<and> fcard (REPLAY_SET st') \<le> 1024 \<and> length (REPLAY_CACHE st') \<le> 1024
       \<and> REPLAY_SET st' = fset_of_list (REPLAY_CACHE st')"
    using run inv secoc_inv_fcard [OF inv] by (simp add: secoc_inv_def REPLAY_CACHE_SIZE_def)
  have b: "record_all secoc_initial hs = Inr st \<Longrightarrow> h |\<notin>| REPLAY_SET st
        \<Longrightarrow> fcard (REPLAY_SET st) = 1024 \<Longrightarrow>
       record_replay st h =
         Inr (True, \<lparr>REPLAY_CACHE = tl (REPLAY_CACHE st) @ [h],
                     REPLAY_SET = finsert h (REPLAY_SET st |-| {|hd (REPLAY_CACHE st)|})\<rparr>)"
    using run inv record_replay_at_capacity [of st h] by (simp add: REPLAY_CACHE_SIZE_def)
  have c: "distinct hs \<Longrightarrow>
       record_all secoc_initial hs =
         Inr \<lparr>REPLAY_CACHE = drop (length hs - 1024) hs,
              REPLAY_SET = fset_of_list (drop (length hs - 1024) hs)\<rparr>"
    using record_all_distinct [of hs] by (simp add: REPLAY_CACHE_SIZE_def)
  have d: "unpack_Q (drop (length m - 8) m) = Inr stamp \<Longrightarrow> \<bar>now - int stamp\<bar> \<le> 30
        \<Longrightarrow> msg_hash |\<notin>| SEEN_HASHES pst \<Longrightarrow>
       SEEN_HASHES (snd (handle_message pst m s pk now msg_hash victim verdict)) =
         (if 2048 \<le> fcard (SEEN_HASHES pst)
          then finsert msg_hash (SEEN_HASHES pst) |-| {|victim|}
          else finsert msg_hash (SEEN_HASHES pst))"
    using handle_message_records [of m stamp now msg_hash pst s pk victim verdict]
    by (simp add: MAX_HASHES_def)
  have e: "fcard (SEEN_HASHES pst) \<le> 2048 \<Longrightarrow> victim |\<in>| finsert msg_hash (SEEN_HASHES pst) \<Longrightarrow>
       fcard (SEEN_HASHES (snd (handle_message pst m s pk now msg_hash victim verdict))) \<le> 2048"
    using handle_message_bounded [of pst victim msg_hash m s pk now verdict]
    by (simp add: MAX_HASHES_def)
  have f: "fcard seen \<le> 2048 \<Longrightarrow> pending ws = 0 \<Longrightarrow>
       fcard (fst (run_threads (seen, ws) schedule))
         \<le> 2048 + pending (snd (run_threads (seen, ws) schedule))
       \<and> pending (snd (run_threads (seen, ws) schedule)) \<le> length ws
       \<and> (pending (snd (run_threads (seen, ws) schedule)) = 0 \<longrightarrow>
            fcard (fst (run_threads (seen, ws) schedule)) \<le> 2048)"
  proof -
    assume "fcard seen \<le> 2048" and "pending ws = 0"
    then have "fcard (fst (seen, ws)) \<le> MAX_HASHES + pending (snd (seen, ws))"
      by (simp add: MAX_HASHES_def)
    from run_threads_inv [OF this, of schedule]
    have g: "fcard (fst (run_threads (seen, ws) schedule))
               \<le> 2048 + pending (snd (run_threads (seen, ws) schedule))"
      by (simp add: MAX_HASHES_def)
    have "pending (snd (run_threads (seen, ws) schedule)) \<le> length ws"
      using pending_le_length [of "snd (run_threads (seen, ws) schedule)"]
        run_threads_length [of "(seen, ws)" schedule] by simp
    with g show ?thesis by simp
  qed
  have g: "fcard (finsert msg_hash seen) \<le> 2048 \<or> victim |\<in>| finsert msg_hash seen \<Longrightarrow>
       run_threads (seen, [(At_freshness (Call m now msg_hash verdict), [])])
         [(0, victim), (0, victim), (0, victim), (0, victim), (0, victim), (0, victim)]
       = (SEEN_HASHES (snd (handle_message \<lparr>SEEN_HASHES = seen, MSG_QUEUE = []\<rparr>
                               m s pk now msg_hash victim verdict)),
          [(Returned (fst (handle_message \<lparr>SEEN_HASHES = seen, MSG_QUEUE = []\<rparr>
                               m s pk now msg_hash victim verdict)), [])])"
    using handle_message_as_steps [of msg_hash seen victim m now verdict "[]" s pk]
    by (simp add: MAX_HASHES_def)
  from a b c d e f g show ?thesis by blast
qed

theorem replay_caches_bounded_and_fifo_witness:
  "record_all secoc_initial (example_fingerprints 1024)
     = Inr \<lparr>REPLAY_CACHE = example_fingerprints 1024,
            REPLAY_SET = fset_of_list (example_fingerprints 1024)\<rparr>
   \<and> replicate 1024 (CHR ''a'') |\<notin>| fset_of_list (example_fingerprints 1024)
   \<and> fcard (fset_of_list (example_fingerprints 1024)) = 1024
   \<and> record_replay \<lparr>REPLAY_CACHE = example_fingerprints 1024,
                     REPLAY_SET = fset_of_list (example_fingerprints 1024)\<rparr>
        (replicate 1024 (CHR ''a''))
     = Inr (True, \<lparr>REPLAY_CACHE = tl (example_fingerprints 1024) @ [replicate 1024 (CHR ''a'')],
                   REPLAY_SET = finsert (replicate 1024 (CHR ''a''))
                     (fset_of_list (example_fingerprints 1024)
                        |-| {|hd (example_fingerprints 1024)|})\<rparr>)
   \<and> distinct (example_fingerprints 1025)
   \<and> record_all secoc_initial (example_fingerprints 1025)
     = Inr \<lparr>REPLAY_CACHE = drop 1 (example_fingerprints 1025),
            REPLAY_SET = fset_of_list (drop 1 (example_fingerprints 1025))\<rparr>
   \<and> unpack_Q (drop (length example_message - 8) example_message) = Inr 100
   \<and> example_hash_a |\<notin>| example_full_set
   \<and> fcard example_full_set = 2048
   \<and> '''' |\<in>| finsert example_hash_a example_full_set
   \<and> SEEN_HASHES (snd (handle_message \<lparr>SEEN_HASHES = example_full_set, MSG_QUEUE = []\<rparr>
                          example_message [] [] 100 example_hash_a '''' (Some True)))
       = finsert example_hash_a example_full_set |-| {|''''|}
   \<and> fcard (SEEN_HASHES (snd (handle_message \<lparr>SEEN_HASHES = example_full_set, MSG_QUEUE = []\<rparr>
                                 example_message [] [] 100 example_hash_a '''' (Some True))))
       \<le> 2048
   \<and> run_threads
         (example_full_set, [(At_freshness (Call example_message 100 example_hash_a (Some True)), [])])
         [(0, ''''), (0, ''''), (0, ''''), (0, ''''), (0, ''''), (0, '''')]
       = (finsert example_hash_a example_full_set |-| {|''''|}, [(Returned PQC_verified, [])])
   \<and> pending example_workers = 0
   \<and> pending (snd (run_threads (example_full_set, example_workers) example_schedule)) = 1
   \<and> fcard (fst (run_threads (example_full_set, example_workers) example_schedule)) \<le> 2049
   \<and> pending (snd (run_threads (example_full_set, example_workers)
                      example_schedule_complete)) = 0
   \<and> fcard (fst (run_threads (example_full_set, example_workers)
                     example_schedule_complete)) \<le> 2048"
proof -
  let ?st = "\<lparr>REPLAY_CACHE = example_fingerprints 1024,
              REPLAY_SET = fset_of_list (example_fingerprints 1024)\<rparr>"
  let ?pst = "\<lparr>SEEN_HASHES = example_full_set, MSG_QUEUE = []\<rparr>"
  have run: "record_all secoc_initial (example_fingerprints 1024) = Inr ?st"
    using record_all_distinct [OF example_fingerprints_distinct, of 1024]
    by (simp add: example_fingerprints_length REPLAY_CACHE_SIZE_def)
  have new: "replicate 1024 (CHR ''a'') |\<notin>| fset_of_list (example_fingerprints 1024)"
    using example_fingerprints_new [of 1024] by (simp add: fset_of_list_elem)
  have card: "fcard (fset_of_list (example_fingerprints 1024)) = 1024"
    by (simp add: fcard_fset_of_list_distinct example_fingerprints_distinct
        example_fingerprints_length)
  have p0: "pending example_workers = 0"
    by (simp add: pending_def example_workers_def)
  have p1: "pending (snd (run_threads (example_full_set, example_workers) example_schedule)) = 1"
    by (simp add: example_run pending_def)
  have p2: "pending (snd (run_threads (example_full_set, example_workers)
                      example_schedule_complete)) = 0"
    by (simp add: example_run_complete pending_def)
  note t1 = replay_caches_bounded_and_fifo
              [where hs = "example_fingerprints 1024" and st = ?st
                 and h = "replicate 1024 (CHR ''a'')" and m = example_message and stamp = 100
                 and now = 100 and msg_hash = example_hash_a and pst = ?pst and s = "[]"
                 and pk = "[]" and victim = "''''" and verdict = "Some True"
                 and seen = example_full_set and ws = example_workers
                 and schedule = example_schedule]
  note t2 = replay_caches_bounded_and_fifo
              [where hs = "example_fingerprints 1025" and st = ?st
                 and h = "replicate 1024 (CHR ''a'')" and m = example_message and stamp = 100
                 and now = 100 and msg_hash = example_hash_a and pst = ?pst and s = "[]"
                 and pk = "[]" and victim = "''''" and verdict = "Some True"
                 and seen = example_full_set and ws = example_workers
                 and schedule = example_schedule_complete]
  have fifo: "record_replay ?st (replicate 1024 (CHR ''a''))
     = Inr (True, \<lparr>REPLAY_CACHE = tl (example_fingerprints 1024) @ [replicate 1024 (CHR ''a'')],
                   REPLAY_SET = finsert (replicate 1024 (CHR ''a''))
                     (fset_of_list (example_fingerprints 1024)
                        |-| {|hd (example_fingerprints 1024)|})\<rparr>)"
    using t1 run new card by simp
  have all: "record_all secoc_initial (example_fingerprints 1025)
     = Inr \<lparr>REPLAY_CACHE = drop 1 (example_fingerprints 1025),
            REPLAY_SET = fset_of_list (drop 1 (example_fingerprints 1025))\<rparr>"
    using t2 example_fingerprints_distinct [of 1025] by (simp add: example_fingerprints_length)
  have rec: "SEEN_HASHES (snd (handle_message ?pst example_message [] [] 100 example_hash_a ''''
               (Some True))) = finsert example_hash_a example_full_set |-| {|''''|}"
    using t1 by (simp add: example_message_freshness example_hashes_new example_full_set_card)
  have bound: "fcard (SEEN_HASHES (snd (handle_message ?pst example_message [] [] 100
               example_hash_a '''' (Some True)))) \<le> 2048"
    using t1 by (simp add: example_hashes_new example_full_set_card)
  have out: "fst (handle_message ?pst example_message [] [] 100 example_hash_a '''' (Some True))
               = PQC_verified"
    by (simp add: handle_message_def Let_def example_message_freshness example_hashes_new)
  have solo: "run_threads
         (example_full_set, [(At_freshness (Call example_message 100 example_hash_a (Some True)), [])])
         [(0, ''''), (0, ''''), (0, ''''), (0, ''''), (0, ''''), (0, '''')]
       = (finsert example_hash_a example_full_set |-| {|''''|}, [(Returned PQC_verified, [])])"
    using t1 rec out by (simp add: example_hashes_new)
  have i1: "fcard (fst (run_threads (example_full_set, example_workers) example_schedule)) \<le> 2049"
    using t1 p0 p1 by (simp add: example_full_set_card)
  have i2: "fcard (fst (run_threads (example_full_set, example_workers)
                     example_schedule_complete)) \<le> 2048"
    using t2 p0 p2 by (simp add: example_full_set_card)
  show ?thesis
    using run new card fifo all rec bound solo p0 p1 p2 i1 i2
      example_fingerprints_distinct [of 1025]
      example_message_freshness example_hashes_new example_full_set_card
    by simp
qed

subsection \<open>The same envelope twice\<close>

lemma secoc_first:
  assumes read: "secoc_read_envelope c = Inr (m, length tag, tag)"
    and len: "length m = 56"
    and fresh: "now - int (from_bytes_big (drop 48 m)) \<le> 5"
               "int (from_bytes_big (drop 48 m)) - now \<le> 5"
    and auth: "take (length tag) calc_full = tag"
    and new: "take 32 hexdigest |\<notin>| REPLAY_SET st"
    and room: "fcard (REPLAY_SET st) < REPLAY_CACHE_SIZE \<or> REPLAY_CACHE st \<noteq> []"
  shows "\<exists>decoded st'. take 32 hexdigest |\<in>| REPLAY_SET st' \<and>
           secoc_handle_connection st c now calc_full hexdigest reading draw =
             (if draw < fst (compute_drop_prob reading) then Overload_drop
              else Valid_msg decoded, st')"
proof -
  from record_replay_new [OF new room] obtain st' where
    rr: "record_replay st (take 32 hexdigest) = Inr (True, st')"
    and seen: "take 32 hexdigest |\<in>| REPLAY_SET st'" by blast
  have uq: "unpack_Q (drop (length m - 8) m) = Inr (from_bytes_big (drop 48 m))"
    using len by (simp add: unpack_Q_def)
  obtain decoded where up: "unpack_payload (take (length m - 8) m) = Inr decoded"
    using len by (simp add: unpack_payload_def)
  have "secoc_handle_connection st c now calc_full hexdigest reading draw =
          (if draw < fst (compute_drop_prob reading) then Overload_drop
           else Valid_msg decoded, st')"
    using len fresh new rr uq up auth
    by (simp add: secoc_handle_connection_def read secoc_verify_def Let_def
        FRESHNESS_MAX_AGE_def FRESHNESS_FUTURE_TOL_def split: prod.splits)
  with seen show ?thesis by blast
qed

lemma secoc_second:
  assumes read: "secoc_read_envelope c = Inr (m, length tag, tag)"
    and len: "length m = 56"
    and auth: "take (length tag) calc_full = tag"
    and seen: "take 32 hexdigest |\<in>| REPLAY_SET st"
  shows "secoc_handle_connection st c now calc_full hexdigest reading draw =
           (if now - int (from_bytes_big (drop 48 m)) > 5 then Stale_msg
            else if int (from_bytes_big (drop 48 m)) - now > 5 then Future_msg
            else Replay_detected, st)"
proof -
  have uq: "unpack_Q (drop (length m - 8) m) = Inr (from_bytes_big (drop 48 m))"
    using len by (simp add: unpack_Q_def)
  show ?thesis
    using len seen uq auth
    by (simp add: secoc_handle_connection_def read secoc_verify_def Let_def
        FRESHNESS_MAX_AGE_def FRESHNESS_FUTURE_TOL_def)
qed

lemma pqc_receive_dropped:
  assumes "pqc_read_envelope c = Inr (m, s, pk)" and "cpu > 85 \<or> draw < 0.1"
  shows "pqc_receive st c cpu draw now msg_hash victim verdict = (At_connection Admission_drop, st)"
  using assms
  by (auto simp: pqc_receive_def pqc_handle_connection_def CPU_LIMIT_def DROP_PROB_BASE_def)

lemma pqc_receive_admitted:
  assumes "pqc_read_envelope c = Inr (m, s, pk)" and "\<not> (cpu > 85 \<or> draw < 0.1)"
    and "MSG_QUEUE st = []"
  shows "pqc_receive st c cpu draw now msg_hash victim verdict =
           (At_worker (fst (handle_message st m s pk now msg_hash victim verdict)),
            snd (handle_message st m s pk now msg_hash victim verdict))"
proof -
  have same: "st\<lparr>MSG_QUEUE := []\<rparr> = st" using assms(3) by (cases st) simp
  show ?thesis
    using assms
    by (auto simp: same pqc_receive_def pqc_handle_connection_def CPU_LIMIT_def DROP_PROB_BASE_def
        MSG_QUEUE_maxsize_def worker_step_def split: prod.splits)
qed

lemma handle_message_first:
  assumes stamp: "unpack_Q (drop (length m - 8) m) = Inr stamp"
    and fresh: "\<bar>now - int stamp\<bar> \<le> 30"
    and new: "msg_hash |\<notin>| SEEN_HASHES st"
  shows "handle_message st m s pk now msg_hash victim (Some True) =
           (PQC_verified,
            st\<lparr>SEEN_HASHES :=
                 if fcard (finsert msg_hash (SEEN_HASHES st)) > MAX_HASHES
                 then finsert msg_hash (SEEN_HASHES st) |-| {|victim|}
                 else finsert msg_hash (SEEN_HASHES st)\<rparr>)"
  using assms by (simp add: handle_message_def Let_def)

lemma handle_message_seen:
  assumes stamp: "unpack_Q (drop (length m - 8) m) = Inr stamp"
    and fresh: "\<bar>now - int stamp\<bar> \<le> 30"
    and seen: "msg_hash |\<in>| SEEN_HASHES st"
  shows "handle_message st m s pk now msg_hash victim verdict = (Replayed, st)"
  using assms by (simp add: handle_message_def Let_def)

lemma example_secoc_read:
  "secoc_read_envelope example_secoc_conn = Inr (example_message, length example_tag, example_tag)"
proof -
  have w: "secoc_sender_wire example_message example_tag
             = Inr ([0, 56] @ example_message @ [0, 8] @ example_tag)"
    by (simp add: secoc_sender_wire_def sendall_field_def to_bytes2_def example_message_length
        example_tag_def)
  have "secoc_read_envelope example_secoc_conn =
          (if length ([0, 56] @ example_message @ [0, 8] @ example_tag)
                < length ([0, 56] @ example_message @ [0, 8] @ example_tag)
           then Inl ConnectionError else Inr (example_message, length example_tag, example_tag))"
    by (rule secoc_read_envelope_take [OF _ _ _ w])
       (simp_all add: example_secoc_conn_def example_message_length example_tag_def)
  then show ?thesis by simp
qed

lemma example_pqc_read:
  "pqc_read_envelope example_pqc_conn = Inr (example_message, [8], [9])"
proof -
  have w: "pqc_sender_wire example_message [8] [9]
             = Inr ([0, 56] @ example_message @ [0, 1, 8, 0, 1, 9])"
    by (simp add: pqc_sender_wire_def sendall_field_def to_bytes2_def example_message_length)
  have "pqc_read_envelope example_pqc_conn =
          (if length ([0, 56] @ example_message @ [0, 1, 8, 0, 1, 9])
                < length ([0, 56] @ example_message @ [0, 1, 8, 0, 1, 9])
           then Inl ConnectionError else Inr (example_message, [8], [9]))"
    by (rule pqc_read_envelope_take [OF _ _ _ _ w])
       (simp_all add: example_pqc_conn_def example_message_length)
  then show ?thesis by simp
qed

lemma example_auth: "take (length example_tag) example_hmac = example_tag"
  by (simp add: example_tag_def example_hmac_def)

lemma example_new: "take 32 example_hexdigest |\<notin>| REPLAY_SET secoc_initial"
  by (simp add: secoc_initial_def)

lemma example_room:
  "fcard (REPLAY_SET secoc_initial) < REPLAY_CACHE_SIZE \<or> REPLAY_CACHE secoc_initial \<noteq> []"
  by (simp add: secoc_initial_def REPLAY_CACHE_SIZE_def fcard_fempty)

lemma example_fresh:
  "100 - int (from_bytes_big (drop 48 example_message)) \<le> 5"
  "int (from_bytes_big (drop 48 example_message)) - 100 \<le> 5"
  "\<bar>100 - int (from_bytes_big (drop 48 example_message))\<bar> \<le> 30"
  by (simp_all add: example_message_ts)

lemma example_drop_prob: "fst (compute_drop_prob (Some 60)) = 1 / 2"
  by (simp add: compute_drop_prob_def MAX_DROP_PROB_def CPU_SCALE_def)

text \<open>
  C2 as stated (exactly one acceptance and one drop for all outcomes of the admission gates)
  fails: at a CPU percentage of 60 the SECOC drop probability is 0.5, and with draws of 0.25
  the first copy of a valid envelope is dropped for overload, after its fingerprint was
  recorded, and the second as a replay. Neither is accepted.
\<close>

theorem replay_twice_overload_no_acceptance:
  "secoc_read_envelope example_secoc_conn = Inr (example_message, length example_tag, example_tag)
   \<and> length example_message = 56
   \<and> take (length example_tag) example_hmac = example_tag
   \<and> take 32 example_hexdigest |\<notin>| REPLAY_SET secoc_initial
   \<and> fst (secoc_handle_connection secoc_initial example_secoc_conn 100 example_hmac
            example_hexdigest (Some 60) (1 / 4)) = Overload_drop
   \<and> fst (secoc_handle_connection
            (snd (secoc_handle_connection secoc_initial example_secoc_conn 100 example_hmac
                    example_hexdigest (Some 60) (1 / 4)))
            example_secoc_conn 100 example_hmac example_hexdigest (Some 60) (1 / 4))
       = Replay_detected"
proof -
  from secoc_first [OF example_secoc_read example_message_length example_fresh(1,2) example_auth
         example_new example_room, of "Some 60" "1 / 4"]
  obtain st' where seen: "take 32 example_hexdigest |\<in>| REPLAY_SET st'"
    and r1: "secoc_handle_connection secoc_initial example_secoc_conn 100 example_hmac
               example_hexdigest (Some 60) (1 / 4) = (Overload_drop, st')"
    by (auto simp: example_drop_prob)
  from secoc_second [OF example_secoc_read example_message_length example_auth seen,
         of 100 "Some 60" "1 / 4"]
  have "secoc_handle_connection st' example_secoc_conn 100 example_hmac example_hexdigest
          (Some 60) (1 / 4) = (Replay_detected, st')"
    by (simp add: example_message_ts)
  with r1 show ?thesis
    using example_secoc_read example_message_length example_auth example_new by simp
qed

text \<open>
  The PQC receiver can also accept both copies: when the replay set is full and \<open>pop\<close>
  removes the fingerprint just added, the second copy is not recognised.
\<close>

lemma pqc_replay_after_eviction:
  assumes read: "pqc_read_envelope pc = Inr (m, s, pk)"
    and stamp: "unpack_Q (drop (length m - 8) m) = Inr stamp"
    and fresh: "\<bar>t1 - int stamp\<bar> \<le> 30" "\<bar>t2 - int stamp\<bar> \<le> 30"
    and new: "msg_hash |\<notin>| SEEN_HASHES pst"
    and queue: "MSG_QUEUE pst = []"
    and full: "fcard (SEEN_HASHES pst) = MAX_HASHES"
    and pass: "\<not> (cpu1 > 85 \<or> d1 < 0.1)" "\<not> (cpu2 > 85 \<or> d2 < 0.1)"
  shows "fst (pqc_receive pst pc cpu1 d1 t1 msg_hash msg_hash (Some True)) = At_worker PQC_verified
       \<and> fst (pqc_receive (snd (pqc_receive pst pc cpu1 d1 t1 msg_hash msg_hash (Some True)))
                pc cpu2 d2 t2 msg_hash victim2 (Some True)) = At_worker PQC_verified"
proof -
  have st1: "pst\<lparr>SEEN_HASHES := SEEN_HASHES pst\<rparr> = pst" by simp
  have p1: "pqc_receive pst pc cpu1 d1 t1 msg_hash msg_hash (Some True)
              = (At_worker PQC_verified, pst)"
    using pqc_receive_admitted [OF read pass(1) queue, of t1 msg_hash msg_hash "Some True"]
      handle_message_first [OF stamp fresh(1) new, of s pk msg_hash] new full
    by (simp add: fcard_finsert_if)
  show ?thesis
    using pqc_receive_admitted [OF read pass(2) queue, of t2 msg_hash victim2 "Some True"]
      handle_message_first [OF stamp fresh(2) new, of s pk victim2]
    by (simp add: p1)
qed

text \<open>
  C2, amended. For a valid envelope (56-byte message, fresh, correctly authenticated, not seen
  before) processed twice by the same receiver: the SECOC receiver never accepts the second
  copy, and accepts the first exactly when its overload draw is not below the drop
  probability; the PQC receiver (empty queue, fingerprint not evicted in between) accepts
  exactly one of the two copies unless the pre-admission check drops both.
\<close>

theorem replay_twice_one_acceptance:
  assumes sread: "secoc_read_envelope c = Inr (m, length tag, tag)"
    and len: "length m = 56"
    and sfresh: "now1 - int (from_bytes_big (drop 48 m)) \<le> 5"
                "int (from_bytes_big (drop 48 m)) - now1 \<le> 5"
    and auth: "take (length tag) calc_full = tag"
    and snew: "take 32 hexdigest |\<notin>| REPLAY_SET st"
    and room: "fcard (REPLAY_SET st) < REPLAY_CACHE_SIZE \<or> REPLAY_CACHE st \<noteq> []"
    and pread: "pqc_read_envelope pc = Inr (m, s, pk)"
    and pfresh: "\<bar>t1 - int (from_bytes_big (drop 48 m))\<bar> \<le> 30"
                "\<bar>t2 - int (from_bytes_big (drop 48 m))\<bar> \<le> 30"
    and pnew: "msg_hash |\<notin>| SEEN_HASHES pst"
    and queue: "MSG_QUEUE pst = []"
    and keep: "fcard (SEEN_HASHES pst) < MAX_HASHES \<or> victim1 \<noteq> msg_hash"
  shows "(let r1 = secoc_handle_connection st c now1 calc_full hexdigest reading1 draw1;
              r2 = secoc_handle_connection (snd r1) c now2 calc_full hexdigest reading2 draw2
          in \<not> secoc_accepted (fst r2)
             \<and> length (filter secoc_accepted [fst r1, fst r2])
                 = (if draw1 < fst (compute_drop_prob reading1) then 0 else 1))
       \<and> (let p1 = pqc_receive pst pc cpu1 d1 t1 msg_hash victim1 (Some True);
              p2 = pqc_receive (snd p1) pc cpu2 d2 t2 msg_hash victim2 (Some True)
          in length (filter pqc_accepted [fst p1, fst p2])
               = (if (cpu1 > 85 \<or> d1 < 0.1) \<and> (cpu2 > 85 \<or> d2 < 0.1) then 0 else 1))"
proof -
  have secoc: "let r1 = secoc_handle_connection st c now1 calc_full hexdigest reading1 draw1;
              r2 = secoc_handle_connection (snd r1) c now2 calc_full hexdigest reading2 draw2
          in \<not> secoc_accepted (fst r2)
             \<and> length (filter secoc_accepted [fst r1, fst r2])
                 = (if draw1 < fst (compute_drop_prob reading1) then 0 else 1)"
  proof -
    from secoc_first [OF sread len sfresh auth snew room, of reading1 draw1]
    obtain decoded st' where seen: "take 32 hexdigest |\<in>| REPLAY_SET st'"
      and r1: "secoc_handle_connection st c now1 calc_full hexdigest reading1 draw1 =
                 (if draw1 < fst (compute_drop_prob reading1) then Overload_drop
                  else Valid_msg decoded, st')" by blast
    note r2 = secoc_second [OF sread len auth seen, of now2 reading2 draw2]
    show ?thesis by (simp add: Let_def r1 r2)
  qed
  have stamp: "unpack_Q (drop (length m - 8) m) = Inr (from_bytes_big (drop 48 m))"
    using len by (simp add: unpack_Q_def)
  let ?p1 = "pqc_receive pst pc cpu1 d1 t1 msg_hash victim1 (Some True)"
  let ?p2 = "pqc_receive (snd ?p1) pc cpu2 d2 t2 msg_hash victim2 (Some True)"
  have pqc: "length (filter pqc_accepted [fst ?p1, fst ?p2])
               = (if (cpu1 > 85 \<or> d1 < 0.1) \<and> (cpu2 > 85 \<or> d2 < 0.1) then 0 else 1)"
  proof (cases "cpu1 > 85 \<or> d1 < 0.1")
    case drop1: True
    note p1 = pqc_receive_dropped [OF pread drop1, of pst t1 msg_hash victim1 "Some True"]
    show ?thesis
    proof (cases "cpu2 > 85 \<or> d2 < 0.1")
      case True
      from pqc_receive_dropped [OF pread True, of pst t2 msg_hash victim2 "Some True"] p1 drop1 True
      show ?thesis by (simp add: pqc_accepted_def)
    next
      case False
      from pqc_receive_admitted [OF pread False queue, of t2 msg_hash victim2 "Some True"]
        handle_message_first [OF stamp pfresh(2) pnew, of s pk victim2] p1 drop1 False
      show ?thesis by (simp add: pqc_accepted_def)
    qed
  next
    case pass1: False
    let ?st1 = "pst\<lparr>SEEN_HASHES :=
                 if fcard (finsert msg_hash (SEEN_HASHES pst)) > MAX_HASHES
                 then finsert msg_hash (SEEN_HASHES pst) |-| {|victim1|}
                 else finsert msg_hash (SEEN_HASHES pst)\<rparr>"
    have p1: "?p1 = (At_worker PQC_verified, ?st1)"
      using pqc_receive_admitted [OF pread pass1 queue, of t1 msg_hash victim1 "Some True"]
        handle_message_first [OF stamp pfresh(1) pnew, of s pk victim1] by simp
    have seen1: "msg_hash |\<in>| SEEN_HASHES ?st1"
      using keep pnew by (auto simp: fcard_finsert_if)
    have q1: "MSG_QUEUE ?st1 = []" using queue by simp
    show ?thesis
    proof (cases "cpu2 > 85 \<or> d2 < 0.1")
      case True
      from pqc_receive_dropped [OF pread True, of ?st1 t2 msg_hash victim2 "Some True"] p1 pass1
      show ?thesis by (simp add: pqc_accepted_def)
    next
      case False
      from pqc_receive_admitted [OF pread False q1, of t2 msg_hash victim2 "Some True"]
        handle_message_seen [OF stamp pfresh(2) seen1, of s pk victim2 "Some True"] p1 pass1
      show ?thesis by (simp add: pqc_accepted_def)
    qed
  qed
  from secoc pqc show ?thesis by (simp add: Let_def)
qed

theorem replay_twice_one_acceptance_witness:
  "secoc_read_envelope example_secoc_conn = Inr (example_message, length example_tag, example_tag)
   \<and> length example_message = 56
   \<and> 100 - int (from_bytes_big (drop 48 example_message)) \<le> 5
   \<and> int (from_bytes_big (drop 48 example_message)) - 100 \<le> 5
   \<and> take (length example_tag) example_hmac = example_tag
   \<and> take 32 example_hexdigest |\<notin>| REPLAY_SET secoc_initial
   \<and> fcard (REPLAY_SET secoc_initial) < REPLAY_CACHE_SIZE
   \<and> pqc_read_envelope example_pqc_conn = Inr (example_message, [8], [9])
   \<and> \<bar>100 - int (from_bytes_big (drop 48 example_message))\<bar> \<le> 30
   \<and> example_hexdigest |\<notin>| SEEN_HASHES pqc_initial
   \<and> MSG_QUEUE pqc_initial = []
   \<and> fcard (SEEN_HASHES pqc_initial) < MAX_HASHES
   \<and> (let r1 = secoc_handle_connection secoc_initial example_secoc_conn 100 example_hmac
                  example_hexdigest (Some 60) (3 / 4);
           r2 = secoc_handle_connection (snd r1) example_secoc_conn 100 example_hmac
                  example_hexdigest (Some 60) (3 / 4)
       in \<not> secoc_accepted (fst r2) \<and> length (filter secoc_accepted [fst r1, fst r2]) = 1)
   \<and> (let p1 = pqc_receive pqc_initial example_pqc_conn 50 (1 / 2) 100 example_hexdigest
                  example_hexdigest (Some True);
           p2 = pqc_receive (snd p1) example_pqc_conn 50 (1 / 2) 100 example_hexdigest
                  example_hexdigest (Some True)
       in length (filter pqc_accepted [fst p1, fst p2]) = 1)"
proof -
  have pnew: "example_hexdigest |\<notin>| SEEN_HASHES pqc_initial"
    and queue: "MSG_QUEUE pqc_initial = []"
    and keep: "fcard (SEEN_HASHES pqc_initial) < MAX_HASHES"
    and room: "fcard (REPLAY_SET secoc_initial) < REPLAY_CACHE_SIZE"
    by (simp_all add: pqc_initial_def MAX_HASHES_def fcard_fempty secoc_initial_def
        REPLAY_CACHE_SIZE_def)
  from replay_twice_one_acceptance
         [OF example_secoc_read example_message_length example_fresh(1,2) example_auth
             example_new example_room example_pqc_read example_fresh(3) example_fresh(3)
             pnew queue disjI1 [OF keep],
          where ?now2.0 = 100 and ?reading1.0 = "Some 60" and ?draw1.0 = "3 / 4"
            and ?reading2.0 = "Some 60" and ?draw2.0 = "3 / 4" and ?cpu1.0 = 50
            and ?d1.0 = "1 / 2" and ?victim1.0 = example_hexdigest and ?cpu2.0 = 50
            and ?d2.0 = "1 / 2" and ?victim2.0 = example_hexdigest]
  show ?thesis
    using example_secoc_read example_message_length example_fresh example_auth example_new
      example_pqc_read pnew queue keep room
    by (simp add: example_drop_prob)
qed

subsection \<open>Run summary\<close>

lemma successful_latencies_eq:
  "map (\<lambda>r. the (latency_ms r)) (filter (\<lambda>r. success r \<and> latency_ms r \<noteq> None) results)
     = successful_latencies results"
  by (induction results) (auto simp: successful_latencies_def)

lemma np_percentile_linear:
  assumes "xs \<noteq> []" and "q \<le> 100"
  shows "np_percentile xs q = linear_interpolation_percentile xs (real q)"
proof -
  define a where "a = sort xs"
  define n where "n = length a"
  define v where "v = (n - 1) * q"
  define lo where "lo = v div 100"
  define g where "g = real (v mod 100) / 100"
  define H where "H = real (n - 1) * real q / 100"
  have np: "np_percentile xs q = a ! lo + g * (a ! min (lo + 1) (n - 1) - a ! lo)"
    unfolding np_percentile_def Let_def a_def n_def v_def lo_def g_def by simp
  have lin: "linear_interpolation_percentile xs (real q) =
               (1 - (H - real (nat \<lfloor>H\<rfloor>))) * a ! nat \<lfloor>H\<rfloor>
               + (H - real (nat \<lfloor>H\<rfloor>)) * a ! nat \<lceil>H\<rceil>"
    unfolding linear_interpolation_percentile_def Let_def a_def n_def H_def by simp
  have "real v = real (100 * (v div 100) + v mod 100)" by simp
  also have "\<dots> = 100 * real (v div 100) + real (v mod 100)"
    by (simp only: of_nat_add of_nat_mult of_nat_numeral)
  finally have "real v / 100 = real lo + g" by (simp add: lo_def g_def)
  then have h: "H = real lo + g" by (simp add: H_def v_def)
  have frac: "0 \<le> g" "g < 1" by (simp_all add: g_def)
  have fl: "\<lfloor>H\<rfloor> = int lo"
    unfolding h using frac by (intro floor_unique) simp_all
  then have nfl: "nat \<lfloor>H\<rfloor> = lo" by simp
  show ?thesis
  proof (cases "v mod 100 = 0")
    case True
    then have g0: "g = 0" by (simp add: g_def)
    show ?thesis unfolding np lin nfl by (simp add: h g0)
  next
    case False
    then have pos: "0 < g" by (simp add: g_def)
    have "\<lceil>H\<rceil> = int lo + 1"
      unfolding h using pos frac by (intro ceiling_unique) simp_all
    then have nce: "nat \<lceil>H\<rceil> = lo + 1" by simp
    have "v < (n - 1) * 100"
    proof (rule ccontr)
      assume "\<not> v < (n - 1) * 100"
      moreover have "v \<le> (n - 1) * 100" using assms(2) by (simp add: v_def)
      ultimately have "v = (n - 1) * 100" by simp
      with False show False by simp
    qed
    then have "lo < n - 1" by (simp add: lo_def div_less_iff_less_mult)
    then have mn: "min (lo + 1) (n - 1) = lo + 1" by simp
    show ?thesis unfolding np lin nfl nce mn by (simp add: h algebra_simps)
  qed
qed

text \<open>
  C7. For every list of Request Results the summary's p50, p90 and p99 are the
  linear-interpolation percentiles, and its mean the arithmetic mean, of exactly the latencies
  of the successful attempts; without a successful attempt the four latency fields are absent;
  and a non-empty list of failures only has a success rate of 0.
\<close>

theorem summarize_latency_statistics:
  "(successful_latencies results \<noteq> [] \<longrightarrow>
      lat_p50_ms (summarize results)
        = Some (linear_interpolation_percentile (successful_latencies results) 50)
    \<and> lat_p90_ms (summarize results)
        = Some (linear_interpolation_percentile (successful_latencies results) 90)
    \<and> lat_p99_ms (summarize results)
        = Some (linear_interpolation_percentile (successful_latencies results) 99)
    \<and> lat_mean_ms (summarize results)
        = Some (sum_list (successful_latencies results)
                  / real (length (successful_latencies results))))
   \<and> ((\<forall>r \<in> set results. \<not> success r) \<longrightarrow>
        lat_p50_ms (summarize results) = None \<and> lat_p90_ms (summarize results) = None
      \<and> lat_p99_ms (summarize results) = None \<and> lat_mean_ms (summarize results) = None)
   \<and> (results \<noteq> [] \<and> (\<forall>r \<in> set results. \<not> success r) \<longrightarrow>
        success_rate_pct (summarize results) = Some 0)"
proof -
  let ?lat = "successful_latencies results"
  have fields:
    "lat_p50_ms (summarize results) = (if ?lat \<noteq> [] then Some (np_percentile ?lat 50) else None)"
    "lat_p90_ms (summarize results) = (if ?lat \<noteq> [] then Some (np_percentile ?lat 90) else None)"
    "lat_p99_ms (summarize results) = (if ?lat \<noteq> [] then Some (np_percentile ?lat 99) else None)"
    "lat_mean_ms (summarize results) = (if ?lat \<noteq> [] then Some (statistics_mean ?lat) else None)"
    unfolding summarize_def Let_def successful_latencies_eq by simp_all
  have a: "?lat \<noteq> [] \<Longrightarrow> np_percentile ?lat 50 = linear_interpolation_percentile ?lat 50"
    "?lat \<noteq> [] \<Longrightarrow> np_percentile ?lat 90 = linear_interpolation_percentile ?lat 90"
    "?lat \<noteq> [] \<Longrightarrow> np_percentile ?lat 99 = linear_interpolation_percentile ?lat 99"
    using np_percentile_linear [of ?lat 50] np_percentile_linear [of ?lat 90]
      np_percentile_linear [of ?lat 99] by simp_all
  have none: "\<forall>r \<in> set results. \<not> success r \<Longrightarrow> ?lat = []"
    by (induction results) (auto simp: successful_latencies_def)
  have rate: "results \<noteq> [] \<Longrightarrow> \<forall>r \<in> set results. \<not> success r \<Longrightarrow>
                success_rate_pct (summarize results) = Some 0"
  proof -
    assume ne: "results \<noteq> []" and "\<forall>r \<in> set results. \<not> success r"
    then have "filter success results = []" by (simp add: filter_empty_conv)
    with ne show ?thesis by (simp add: summarize_def Let_def)
  qed
  show ?thesis
    using fields a none rate by (simp add: statistics_mean_def)
qed

lemma example_latencies: "successful_latencies example_results = [40, 10, 30, 20]"
  by (simp add: successful_latencies_def example_results_def)

lemma example_p50: "np_percentile [40, 10, 30, 20] 50 = 25"
  by (simp add: np_percentile_def Let_def)

lemma example_p90: "np_percentile [40, 10, 30, 20] 90 = 37"
  by (simp add: np_percentile_def Let_def)

lemma example_p99: "np_percentile [40, 10, 30, 20] 99 = 39.7"
  by (simp add: np_percentile_def Let_def)

theorem summarize_latency_statistics_witness:
  "successful_latencies example_results \<noteq> []
   \<and> lat_p50_ms (summarize example_results) = Some 25
   \<and> lat_p90_ms (summarize example_results) = Some 37
   \<and> lat_p99_ms (summarize example_results) = Some 39.7
   \<and> lat_mean_ms (summarize example_results) = Some 25
   \<and> example_failures \<noteq> [] \<and> filter success example_failures = []
   \<and> lat_p50_ms (summarize example_failures) = None
   \<and> lat_p90_ms (summarize example_failures) = None
   \<and> lat_p99_ms (summarize example_failures) = None
   \<and> lat_mean_ms (summarize example_failures) = None
   \<and> success_rate_pct (summarize example_failures) = Some 0"
proof -
  have lin: "linear_interpolation_percentile [40, 10, 30, 20] 50 = 25"
    "linear_interpolation_percentile [40, 10, 30, 20] 90 = 37"
    "linear_interpolation_percentile [40, 10, 30, 20] 99 = 39.7"
    using np_percentile_linear [of "[40, 10, 30, 20]" 50]
      np_percentile_linear [of "[40, 10, 30, 20]" 90]
      np_percentile_linear [of "[40, 10, 30, 20]" 99]
    by (simp_all add: example_p50 example_p90 example_p99)
  have fail: "example_failures \<noteq> []" "\<forall>r \<in> set example_failures. \<not> success r"
    by (simp_all add: example_failures_def)
  note thm50 = summarize_latency_statistics [of example_results]
    summarize_latency_statistics [of example_failures]
  have nosucc: "filter success example_failures = []"
    by (simp add: example_failures_def)
  from thm50 show ?thesis
    using fail nosucc by (simp add: example_latencies lin)
qed

subsection \<open>Normalizer, CSV mode\<close>

lemma frames_0_999:
  assumes "map frame_id df = map int [0..<1000]"
  shows "df \<noteq> []" and "length df = 1000" and "frame_id (last df) = 999"
proof -
  have len: "length (map frame_id df) = 1000" by (simp add: assms)
  then show ne: "df \<noteq> []" and "length df = 1000" by auto
  have "frame_id (last df) = last (map frame_id df)" using ne by (simp add: last_map)
  also have "\<dots> = int (last [0..<1000])" unfolding assms by (simp add: last_map)
  finally show "frame_id (last df) = 999" by simp
qed

lemma normalize_can_summary:
  assumes "map frame_id df = map int [0..<1000]"
  shows "\<exists>s. summary_json (normalize_can csv_path df None None) = Some s
           \<and> total s = 999 \<and> successes s = 999 \<and> failures s = 0
           \<and> assumed_all_success s \<and> sample_count s = 1000
           \<and> success_rate_pct s = Some 100
           \<and> lat_p50_ms s = None \<and> lat_p90_ms s = None \<and> lat_p99_ms s = None
           \<and> lat_mean_ms s = None"
  using frames_0_999 [OF assms]
  by (simp add: normalize_can_def Let_def split: prod.splits)

lemma request_row_of_convertible:
  assumes "convertible (timestamp row)"
  shows "\<exists>t. request_row_of row =
           Inr \<lparr>row_idx = frame_id row, row_ts = t, row_success = True, row_latency_ms = '''',
                row_resp_len = '''', row_err = ''''\<rparr>"
  using assms
  by (cases "timestamp row") (auto simp: request_row_of_def convertible_def py_float_def utc_iso_def)

lemma request_row_of_text:
  "timestamp row = Text s \<Longrightarrow> request_row_of row = Inl ValueError"
  by (simp add: request_row_of_def py_float_def)

lemma request_row_of_out_of_range:
  "timestamp row = Num t \<Longrightarrow> 253402300800 \<le> t \<Longrightarrow> request_row_of row = Inl ValueError"
  by (simp add: request_row_of_def py_float_def utc_iso_def)

lemma write_requests_convertible:
  assumes "\<forall>row \<in> set df. convertible (timestamp row)"
  shows "\<exists>rows. write_requests df written = (written @ rows, None)
           \<and> map row_idx rows = map frame_id df
           \<and> (\<forall>out \<in> set rows. row_success out \<and> row_latency_ms out = ''''
                 \<and> row_resp_len out = '''' \<and> row_err out = '''')"
  using assms
proof (induction df arbitrary: written)
  case Nil
  then show ?case by simp
next
  case (Cons row df)
  from request_row_of_convertible [of row] Cons.prems obtain t where
    r: "request_row_of row =
          Inr \<lparr>row_idx = frame_id row, row_ts = t, row_success = True, row_latency_ms = '''',
               row_resp_len = '''', row_err = ''''\<rparr>" by auto
  let ?out = "\<lparr>row_idx = frame_id row, row_ts = t, row_success = True, row_latency_ms = '''',
               row_resp_len = '''', row_err = ''''\<rparr>"
  from Cons.IH [of "written @ [?out]"] Cons.prems obtain rows where
    w: "write_requests df (written @ [?out]) = ((written @ [?out]) @ rows, None)"
    and i: "map row_idx rows = map frame_id df"
    and b: "\<forall>out \<in> set rows. row_success out \<and> row_latency_ms out = ''''
                 \<and> row_resp_len out = '''' \<and> row_err out = ''''" by auto
  show ?case
    using r w i b by (intro exI [of _ "?out # rows"]) simp
qed

text \<open>
  For a frame with \<open>frame_id\<close> 0 to 999 whose timestamps are all convertible, the request
  log has one row for each of the 1000 rows, each marked successful with blank latency,
  response length and error, and the call ends normally.
\<close>

lemma normalize_can_convertible:
  assumes frames: "map frame_id df = map int [0..<1000]"
    and conv: "\<forall>row \<in> set df. convertible (timestamp row)"
  shows "\<exists>rows. requests_csv (normalize_can csv_path df None None) = Some rows
           \<and> raised (normalize_can csv_path df None None) = None
           \<and> length rows = 1000 \<and> map row_idx rows = map int [0..<1000]
           \<and> (\<forall>out \<in> set rows. row_success out \<and> row_latency_ms out = ''''
                 \<and> row_resp_len out = '''' \<and> row_err out = '''')"
proof -
  from write_requests_convertible [OF conv, of "[]"] obtain rows where
    w: "write_requests df [] = (rows, None)" and i: "map row_idx rows = map frame_id df"
    and b: "\<forall>out \<in> set rows. row_success out \<and> row_latency_ms out = ''''
                 \<and> row_resp_len out = '''' \<and> row_err out = ''''" by auto
  have "length (map row_idx rows) = 1000" unfolding i frames by simp
  then have len: "length rows = 1000" by simp
  show ?thesis
    using frames_0_999(1) [OF frames] w i b len frames
    by (simp add: normalize_can_def Let_def split: prod.splits)
qed

lemma example_epoch_csv_frames: "map frame_id example_epoch_csv = map int [0..<1000]"
  by (simp add: example_epoch_csv_def comp_def)

lemma example_epoch_csv_convertible: "\<forall>row \<in> set example_epoch_csv. convertible (timestamp row)"
  by (auto simp: example_epoch_csv_def convertible_def)

lemma normalize_can_epoch_example:
  "\<exists>rows. requests_csv (normalize_can ''dos_can_results.csv'' example_epoch_csv None None) = Some rows
           \<and> raised (normalize_can ''dos_can_results.csv'' example_epoch_csv None None) = None
           \<and> length rows = 1000 \<and> map row_idx rows = map int [0..<1000]
           \<and> (\<forall>out \<in> set rows. row_success out \<and> row_latency_ms out = ''''
                 \<and> row_resp_len out = '''' \<and> row_err out = '''')"
  by (rule normalize_can_convertible [OF example_epoch_csv_frames example_epoch_csv_convertible])

lemma example_bus_csv_frames: "map frame_id example_bus_csv = map int [0..<1000]"
  by (simp add: example_bus_csv_def comp_def)

lemma example_bus_csv_first:
  "example_bus_csv =
     \<lparr>timestamp = Text ''2024-01-01T00:00:00'', frame_id = 0,
      cpu_percent = Num 12.5, mem_mb = Num 100, fps = Num 50\<rparr> # tl example_bus_csv"
proof -
  have "[0..<1000] = 0 # [Suc 0..<1000]" by (rule upt_conv_Cons) simp
  then show ?thesis by (simp add: example_bus_csv_def)
qed

text \<open>
  C8. On a bus-metrics CSV with \<open>frame_id\<close> 0 to 999 whose timestamp column holds ISO-8601
  text, the summary is written as specified (total 999, successes 999, failures 0,
  \<open>assumed_all_success\<close>, 1000 samples), but the loop over the rows raises
  \<open>ValueError\<close> at the first row: the request log is left with no row at all instead of
  1000.
\<close>

theorem normalize_can_text_timestamps_abort:
  "map frame_id example_bus_csv = map int [0..<1000]
   \<and> map_option total (summary_json (normalize_can ''dos_can_results.csv'' example_bus_csv None None))
       = Some 999
   \<and> map_option successes (summary_json (normalize_can ''dos_can_results.csv'' example_bus_csv None None))
       = Some 999
   \<and> map_option failures (summary_json (normalize_can ''dos_can_results.csv'' example_bus_csv None None))
       = Some 0
   \<and> map_option assumed_all_success
         (summary_json (normalize_can ''dos_can_results.csv'' example_bus_csv None None)) = Some True
   \<and> map_option sample_count
         (summary_json (normalize_can ''dos_can_results.csv'' example_bus_csv None None)) = Some 1000
   \<and> raised (normalize_can ''dos_can_results.csv'' example_bus_csv None None) = Some ValueError
   \<and> requests_csv (normalize_can ''dos_can_results.csv'' example_bus_csv None None) = Some []"
proof -
  have w: "write_requests example_bus_csv [] = ([], Some ValueError)"
    by (subst example_bus_csv_first) (simp add: request_row_of_text)
  have ne: "example_bus_csv \<noteq> []"
    using frames_0_999(1) [OF example_bus_csv_frames] .
  from normalize_can_summary [OF example_bus_csv_frames, of "''dos_can_results.csv''"]
  obtain s where s: "summary_json (normalize_can ''dos_can_results.csv'' example_bus_csv None None) = Some s"
    and f: "total s = 999" "successes s = 999" "failures s = 0" "assumed_all_success s"
      "sample_count s = 1000" by blast
  have r: "raised (normalize_can ''dos_can_results.csv'' example_bus_csv None None) = Some ValueError"
    "requests_csv (normalize_can ''dos_can_results.csv'' example_bus_csv None None) = Some []"
    using w ne by (simp_all add: normalize_can_def Let_def split: prod.splits)
  show ?thesis
    using example_bus_csv_frames s f r by simp
qed

subsection \<open>Analyzer without a summary file\<close>

lemma load_run_missing:
  "fs (os_path_join folder ''summary.json'') = None \<Longrightarrow> load_run fs folder = Inl FileNotFoundError"
  by (simp add: load_run_def)

text \<open>
  C10. When at least one of the two directories lacks its summary file, the analyzer ends with
  an exception and writes none of its artifacts. The exception is \<open>FileNotFoundError\<close>
  whenever the first directory is the one without a summary, or the first directory loads.
\<close>

theorem analyzer_missing_summary_is_fatal:
  assumes "fs (os_path_join pathA ''summary.json'') = None
           \<or> fs (os_path_join pathB ''summary.json'') = None"
  shows "files_written (analyze_main fs [prog, pathA, pathB]) = []
       \<and> (\<exists>e. status (analyze_main fs [prog, pathA, pathB]) = Raised e)
       \<and> (fs (os_path_join pathA ''summary.json'') = None \<or> (\<exists>r. load_run fs pathA = Inr r)
            \<longrightarrow> status (analyze_main fs [prog, pathA, pathB]) = Raised FileNotFoundError)"
proof (cases "load_run fs pathA")
  case (Inl e)
  then show ?thesis
    using load_run_missing [of fs pathA] by (auto simp: analyze_main_def)
next
  case (Inr r)
  then have "fs (os_path_join pathA ''summary.json'') \<noteq> None"
    using load_run_missing [of fs pathA] by auto
  with assms have "load_run fs pathB = Inl FileNotFoundError"
    by (simp add: load_run_missing)
  with Inr show ?thesis
    by (auto simp: analyze_main_def split: prod.splits)
qed

lemma example_load_run:
  "load_run example_run_files ''results/pqc_run'' =
     Inr ([(''total'', JNum 100)], Some ([''ts'', ''cpu_percent''], [[''t0'', ''3.5'']]), None)"
  by (simp add: load_run_def os_path_join_def example_run_files_def read_csv_if_exists_def)

theorem analyzer_missing_summary_is_fatal_witness:
  "example_run_files (os_path_join ''results/secoc_run'' ''summary.json'') = None
   \<and> load_run example_run_files ''results/pqc_run'' =
       Inr ([(''total'', JNum 100)], Some ([''ts'', ''cpu_percent''], [[''t0'', ''3.5'']]), None)
   \<and> files_written (analyze_main example_run_files
                 [''analyze_runs.py'', ''results/pqc_run'', ''results/secoc_run'']) = []
   \<and> status (analyze_main example_run_files
                 [''analyze_runs.py'', ''results/pqc_run'', ''results/secoc_run''])
       = Raised FileNotFoundError"
proof -
  have missing: "example_run_files (os_path_join ''results/secoc_run'' ''summary.json'') = None"
    by (simp add: os_path_join_def example_run_files_def)
  from analyzer_missing_summary_is_fatal
         [where fs = example_run_files and pathA = "''results/pqc_run''"
            and pathB = "''results/secoc_run''" and prog = "''analyze_runs.py''",
          OF disjI2 [OF missing]]
  show ?thesis using missing example_load_run by auto
qed

end
